theory Spec2Isabelle
  imports Complex_Main
begin

section \<open>Numbers and their text form\<close>

text \<open>
  The C++ code computes with \<open>double\<close>. The embedding computes with exact reals: every
  arithmetic operation is the exact one, without rounding, infinities or NaN. Errors are the
  messages of the \<open>std::runtime_error\<close>s that the code throws.
\<close>

type_synonym error = string

text \<open>\<open>std::to_string\<close> of an unsigned integer: its decimal digits.\<close>

definition digit_char :: "nat \<Rightarrow> char" where
  "digit_char d = ''0123456789'' ! d"

fun nat_to_string :: "nat \<Rightarrow> string" where
  "nat_to_string n =
     (if n < 10 then [digit_char n] else nat_to_string (n div 10) @ [digit_char (n mod 10)])"

declare nat_to_string.simps [simp del]

text \<open>Exactly \<open>w\<close> decimal digits of \<open>n\<close>, the most significant first.\<close>

fun digits_width :: "nat \<Rightarrow> nat \<Rightarrow> string" where
  "digits_width 0 n = []"
| "digits_width (Suc w) n = digits_width w (n div 10) @ [digit_char (n mod 10)]"







text \<open>
  \<open>std::pow\<close> on the reals. Where the IEEE result is an infinity or NaN (a zero base with a
  negative exponent, a negative base with a fractional exponent) the exact-real model has
  no value to give and returns 0.
\<close>

definition cpow :: "real \<Rightarrow> real \<Rightarrow> real" where
  "cpow x y =
     (if y = 0 \<or> x = 1 then 1
      else if 0 < x then x powr y
      else if x = 0 then 0
      else if y = of_int \<lfloor>y\<rfloor> then (if even \<lfloor>y\<rfloor> then 1 else - 1) * ((- x) powr y)
      else 0)"

section \<open>The symbolic expression tree\<close>

text \<open>
  \<open>BinaryOpNode::OpType\<close> and \<open>SymbolicBinaryOp::OpType\<close> have the same five members, and
  \<open>UnaryOpNode::OpType\<close> and \<open>SymbolicUnaryOp::OpType\<close> the same nine, mapped one to one by
  \<open>convertASTToSymbolic\<close>; one datatype stands for each pair.
\<close>

datatype BinaryOpType = ADD | SUBTRACT | MULTIPLY | DIVIDE | POWER

datatype UnaryOpType = POSITIVE | NEGATIVE | SIN | COS | TAN | LOG | LN | SQRT | ABS

datatype SymbolicExpression =
    SymbolicNumber real
  | SymbolicVariable string
  | SymbolicBinaryOp BinaryOpType SymbolicExpression SymbolicExpression
  | SymbolicUnaryOp UnaryOpType SymbolicExpression
  | SymbolicFunction string "SymbolicExpression list"

text \<open>The first error of a sequence of results, or all the values.\<close>

fun collect :: "(error + 'a) list \<Rightarrow> error + 'a list" where
  "collect [] = Inr []"
| "collect (Inl e # rs) = Inl e"
| "collect (Inr x # rs) = (case collect rs of Inl e \<Rightarrow> Inl e | Inr xs \<Rightarrow> Inr (x # xs))"

fun isConstant :: "SymbolicExpression \<Rightarrow> bool" where
  "isConstant (SymbolicNumber v) = True"
| "isConstant (SymbolicVariable n) = False"
| "isConstant (SymbolicBinaryOp opr l r) = (isConstant l \<and> isConstant r)"
| "isConstant (SymbolicUnaryOp opr e) = isConstant e"
| "isConstant (SymbolicFunction f args) = (\<forall>a \<in> set args. isConstant a)"

fun isZero :: "SymbolicExpression \<Rightarrow> bool" where
  "isZero (SymbolicNumber v) = (v = 0)"
| "isZero (SymbolicVariable n) = False"
| "isZero (SymbolicBinaryOp opr l r) = False"
| "isZero (SymbolicUnaryOp opr e) = isZero e"
| "isZero (SymbolicFunction f args) = False"

fun isOne :: "SymbolicExpression \<Rightarrow> bool" where
  "isOne (SymbolicNumber v) = (v = 1)"
| "isOne (SymbolicVariable n) = False"
| "isOne (SymbolicBinaryOp opr l r) = False"
| "isOne (SymbolicUnaryOp opr e) = False"
| "isOne (SymbolicFunction f args) = False"

subsection \<open>Evaluation\<close>

definition binary_apply :: "BinaryOpType \<Rightarrow> real \<Rightarrow> real \<Rightarrow> error + real" where
  "binary_apply opr leftVal rightVal =
     (case opr of
        ADD \<Rightarrow> Inr (leftVal + rightVal)
      | SUBTRACT \<Rightarrow> Inr (leftVal - rightVal)
      | MULTIPLY \<Rightarrow> Inr (leftVal * rightVal)
      | DIVIDE \<Rightarrow> if rightVal = 0 then Inl ''Division by zero'' else Inr (leftVal / rightVal)
      | POWER \<Rightarrow> Inr (cpow leftVal rightVal))"

definition unary_apply :: "UnaryOpType \<Rightarrow> real \<Rightarrow> error + real" where
  "unary_apply opr val =
     (case opr of
        POSITIVE \<Rightarrow> Inr val
      | NEGATIVE \<Rightarrow> Inr (- val)
      | SIN \<Rightarrow> Inr (sin val)
      | COS \<Rightarrow> Inr (cos val)
      | TAN \<Rightarrow> Inr (tan val)
      | LOG \<Rightarrow> if val \<le> 0 then Inl ''Log of non-positive number'' else Inr (log 10 val)
      | LN \<Rightarrow> if val \<le> 0 then Inl ''Natural log of non-positive number'' else Inr (ln val)
      | SQRT \<Rightarrow> if val < 0 then Inl ''Square root of negative number'' else Inr (sqrt val)
      | ABS \<Rightarrow> Inr \<bar>val\<bar>)"

definition function_apply :: "string \<Rightarrow> real \<Rightarrow> error + real" where
  "function_apply functionName arg =
     (if functionName = ''sin'' then Inr (sin arg)
      else if functionName = ''cos'' then Inr (cos arg)
      else if functionName = ''tan'' then Inr (tan arg)
      else if functionName = ''log'' then
        (if arg \<le> 0 then Inl ''Log of non-positive number'' else Inr (log 10 arg))
      else if functionName = ''ln'' then
        (if arg \<le> 0 then Inl ''Natural log of non-positive number'' else Inr (ln arg))
      else if functionName = ''sqrt'' then
        (if arg < 0 then Inl ''Square root of negative number'' else Inr (sqrt arg))
      else if functionName = ''abs'' then Inr \<bar>arg\<bar>
      else Inl (''Unknown function: '' @ functionName))"

fun evaluate :: "SymbolicExpression \<Rightarrow> (string \<rightharpoonup> real) \<Rightarrow> error + real" where
  "evaluate (SymbolicNumber v) variables = Inr v"
| "evaluate (SymbolicVariable n) variables =
     (case variables n of None \<Rightarrow> Inl (''Undefined variable: '' @ n) | Some v \<Rightarrow> Inr v)"
| "evaluate (SymbolicBinaryOp opr l r) variables =
     (case evaluate l variables of
        Inl e \<Rightarrow> Inl e
      | Inr leftVal \<Rightarrow>
          (case evaluate r variables of
             Inl e \<Rightarrow> Inl e
           | Inr rightVal \<Rightarrow> binary_apply opr leftVal rightVal))"
| "evaluate (SymbolicUnaryOp opr e) variables =
     (case evaluate e variables of Inl err \<Rightarrow> Inl err | Inr val \<Rightarrow> unary_apply opr val)"
| "evaluate (SymbolicFunction f []) variables = Inl (''Function '' @ f @ '' expects 1 argument'')"
| "evaluate (SymbolicFunction f [a]) variables =
     (case evaluate a variables of Inl err \<Rightarrow> Inl err | Inr arg \<Rightarrow> function_apply f arg)"
| "evaluate (SymbolicFunction f (a # b # cs)) variables =
     Inl (''Function '' @ f @ '' expects 1 argument'')"

subsection \<open>Simplification\<close>

text \<open>The identities of \<open>SymbolicBinaryOp::simplify\<close>, applied to the simplified operands.\<close>

definition fold_constants ::
  "BinaryOpType \<Rightarrow> SymbolicExpression \<Rightarrow> SymbolicExpression \<Rightarrow> error + SymbolicExpression" where
  "fold_constants opr l r =
     (case evaluate l Map.empty of
        Inl e \<Rightarrow> Inl e
      | Inr lv \<Rightarrow>
          (case evaluate r Map.empty of
             Inl e \<Rightarrow> Inl e
           | Inr rv \<Rightarrow>
               Inr (SymbolicNumber
                 (case opr of ADD \<Rightarrow> lv + rv | SUBTRACT \<Rightarrow> lv - rv | MULTIPLY \<Rightarrow> lv * rv
                  | DIVIDE \<Rightarrow> lv / rv | POWER \<Rightarrow> cpow lv rv))))"

definition simplify_binary ::
  "BinaryOpType \<Rightarrow> SymbolicExpression \<Rightarrow> SymbolicExpression \<Rightarrow> error + SymbolicExpression" where
  "simplify_binary opr simplifiedLeft simplifiedRight =
     (case opr of
        ADD \<Rightarrow>
          if isZero simplifiedLeft then Inr simplifiedRight
          else if isZero simplifiedRight then Inr simplifiedLeft
          else if isConstant simplifiedLeft \<and> isConstant simplifiedRight
            then fold_constants ADD simplifiedLeft simplifiedRight
          else Inr (SymbolicBinaryOp opr simplifiedLeft simplifiedRight)
      | SUBTRACT \<Rightarrow>
          if isZero simplifiedRight then Inr simplifiedLeft
          else if isZero simplifiedLeft then Inr (SymbolicUnaryOp NEGATIVE simplifiedRight)
          else if isConstant simplifiedLeft \<and> isConstant simplifiedRight
            then fold_constants SUBTRACT simplifiedLeft simplifiedRight
          else Inr (SymbolicBinaryOp opr simplifiedLeft simplifiedRight)
      | MULTIPLY \<Rightarrow>
          if isZero simplifiedLeft \<or> isZero simplifiedRight then Inr (SymbolicNumber 0)
          else if isOne simplifiedLeft then Inr simplifiedRight
          else if isOne simplifiedRight then Inr simplifiedLeft
          else if isConstant simplifiedLeft \<and> isConstant simplifiedRight
            then fold_constants MULTIPLY simplifiedLeft simplifiedRight
          else Inr (SymbolicBinaryOp opr simplifiedLeft simplifiedRight)
      | DIVIDE \<Rightarrow>
          if isZero simplifiedRight then Inl ''Division by zero''
          else if isZero simplifiedLeft then Inr (SymbolicNumber 0)
          else if isOne simplifiedRight then Inr simplifiedLeft
          else if isConstant simplifiedLeft \<and> isConstant simplifiedRight
            then fold_constants DIVIDE simplifiedLeft simplifiedRight
          else Inr (SymbolicBinaryOp opr simplifiedLeft simplifiedRight)
      | POWER \<Rightarrow>
          if isZero simplifiedRight then Inr (SymbolicNumber 1)
          else if isOne simplifiedRight then Inr simplifiedLeft
          else if isZero simplifiedLeft then Inr (SymbolicNumber 0)
          else if isOne simplifiedLeft then Inr (SymbolicNumber 1)
          else if isConstant simplifiedLeft \<and> isConstant simplifiedRight
            then fold_constants POWER simplifiedLeft simplifiedRight
          else Inr (SymbolicBinaryOp opr simplifiedLeft simplifiedRight))"

text \<open>
  \<open>SymbolicUnaryOp::simplify\<close> after the operand has been simplified; \<open>self\<close> is the node
  itself, which the constant fold evaluates.
\<close>

definition negated_operand :: "SymbolicExpression \<Rightarrow> SymbolicExpression option" where
  "negated_operand e = (case e of SymbolicUnaryOp NEGATIVE x \<Rightarrow> Some x | _ \<Rightarrow> None)"

definition number_of_evaluate :: "SymbolicExpression \<Rightarrow> error + SymbolicExpression" where
  "number_of_evaluate self =
     (case evaluate self Map.empty of Inl e \<Rightarrow> Inl e | Inr v \<Rightarrow> Inr (SymbolicNumber v))"

definition simplify_unary ::
  "SymbolicExpression \<Rightarrow> UnaryOpType \<Rightarrow> SymbolicExpression \<Rightarrow> error + SymbolicExpression" where
  "simplify_unary self opr simplifiedOperand =
     (if opr = POSITIVE then Inr simplifiedOperand
      else if opr = NEGATIVE \<and> isZero simplifiedOperand then Inr (SymbolicNumber 0)
      else
        (case (if opr = NEGATIVE then negated_operand simplifiedOperand else None) of
           Some x \<Rightarrow> Inr x
         | None \<Rightarrow>
             if isConstant simplifiedOperand then number_of_evaluate self
             else Inr (SymbolicUnaryOp opr simplifiedOperand)))"

fun simplify :: "SymbolicExpression \<Rightarrow> error + SymbolicExpression" where
  "simplify (SymbolicNumber v) = Inr (SymbolicNumber v)"
| "simplify (SymbolicVariable n) = Inr (SymbolicVariable n)"
| "simplify (SymbolicBinaryOp opr l r) =
     (case simplify l of
        Inl e \<Rightarrow> Inl e
      | Inr simplifiedLeft \<Rightarrow>
          (case simplify r of
             Inl e \<Rightarrow> Inl e
           | Inr simplifiedRight \<Rightarrow> simplify_binary opr simplifiedLeft simplifiedRight))"
| "simplify (SymbolicUnaryOp opr e) =
     (case simplify e of
        Inl err \<Rightarrow> Inl err
      | Inr simplifiedOperand \<Rightarrow> simplify_unary (SymbolicUnaryOp opr e) opr simplifiedOperand)"
| "simplify (SymbolicFunction f args) =
     (case collect (map simplify args) of
        Inl err \<Rightarrow> Inl err
      | Inr simplifiedArgs \<Rightarrow>
          if \<forall>a \<in> set simplifiedArgs. isConstant a
          then number_of_evaluate (SymbolicFunction f args)
          else Inr (SymbolicFunction f simplifiedArgs))"

fun variables_of :: "SymbolicExpression \<Rightarrow> string set" where
  "variables_of (SymbolicNumber v) = {}"
| "variables_of (SymbolicVariable n) = {n}"
| "variables_of (SymbolicBinaryOp opr l r) = variables_of l \<union> variables_of r"
| "variables_of (SymbolicUnaryOp opr e) = variables_of e"
| "variables_of (SymbolicFunction f args) = (\<Union>a \<in> set args. variables_of a)"

subsection \<open>Text form\<close>










subsection \<open>Differentiation\<close>


subsection \<open>Integration\<close>


section \<open>Tokens and the lexer\<close>

datatype TokenType =
    TOK_NUMBER | TOK_VARIABLE | TOK_PLUS | TOK_MINUS | TOK_MULTIPLY | TOK_DIVIDE | TOK_POWER
  | TOK_LEFT_PAREN | TOK_RIGHT_PAREN | TOK_FUNCTION | TOK_COMMA | TOK_END_OF_FILE | TOK_INVALID

record Token =
  tok_type :: TokenType
  tok_value :: string
  tok_position :: nat

text \<open>
  The lexer's state: \<open>remaining\<close> is \<open>input.substr(position)\<close>, the text not yet scanned, so
  that \<open>position < length\<close> is \<open>remaining \<noteq> []\<close> and \<open>input[position]\<close> is its first character.
\<close>

record Lexer =
  remaining :: string
  position :: nat

text \<open>The character classes of \<open><cctype>\<close> in the C locale.\<close>

definition isspace :: "char \<Rightarrow> bool" where
  "isspace c = (c = CHR '' '' \<or> (9 \<le> (of_char c :: nat) \<and> (of_char c :: nat) \<le> 13))"

definition isdigit :: "char \<Rightarrow> bool" where
  "isdigit c = (48 \<le> (of_char c :: nat) \<and> (of_char c :: nat) \<le> 57)"

definition isalpha :: "char \<Rightarrow> bool" where
  "isalpha c =
     ((65 \<le> (of_char c :: nat) \<and> (of_char c :: nat) \<le> 90)
      \<or> (97 \<le> (of_char c :: nat) \<and> (of_char c :: nat) \<le> 122))"

definition isalnum :: "char \<Rightarrow> bool" where
  "isalnum c = (isalpha c \<or> isdigit c)"

definition skipWhitespace :: "Lexer \<Rightarrow> Lexer" where
  "skipWhitespace lx =
     \<lparr>remaining = dropWhile isspace (remaining lx),
      position = position lx + length (takeWhile isspace (remaining lx))\<rparr>"

text \<open>
  The characters that the loop of \<open>Lexer::readNumber\<close> consumes: digits, at most one decimal
  point, and an \<open>e\<close> or \<open>E\<close> with an optional sign and the digits after it, which ends the
  number.
\<close>

fun number_chars :: "bool \<Rightarrow> string \<Rightarrow> string" where
  "number_chars hasDecimal [] = []"
| "number_chars hasDecimal (c # cs) =
     (if isdigit c then c # number_chars hasDecimal cs
      else if c = CHR ''.'' \<and> \<not> hasDecimal then c # number_chars True cs
      else if c = CHR ''e'' \<or> c = CHR ''E'' then
        (case cs of
           [] \<Rightarrow> [c]
         | s # ds \<Rightarrow>
             if s = CHR ''+'' \<or> s = CHR ''-'' then c # s # takeWhile isdigit ds
             else c # takeWhile isdigit cs)
      else [])"

definition readNumber :: "Lexer \<Rightarrow> Token \<times> Lexer" where
  "readNumber lx =
     (let numberStr = number_chars False (remaining lx)
      in (\<lparr>tok_type = TOK_NUMBER, tok_value = numberStr, tok_position = position lx\<rparr>,
          \<lparr>remaining = drop (length numberStr) (remaining lx),
           position = position lx + length numberStr\<rparr>))"

definition isFunction :: "string \<Rightarrow> bool" where
  "isFunction identifier =
     (identifier \<in> set [''sin'', ''cos'', ''tan'', ''log'', ''ln'', ''sqrt'', ''abs''])"

definition readIdentifier :: "Lexer \<Rightarrow> Token \<times> Lexer" where
  "readIdentifier lx =
     (let identifier = takeWhile (\<lambda>c. isalnum c \<or> c = CHR ''_'') (remaining lx)
      in (\<lparr>tok_type = (if isFunction identifier then TOK_FUNCTION else TOK_VARIABLE),
           tok_value = identifier, tok_position = position lx\<rparr>,
          \<lparr>remaining = drop (length identifier) (remaining lx),
           position = position lx + length identifier\<rparr>))"

definition single_char_type :: "char \<Rightarrow> TokenType" where
  "single_char_type c =
     (if c = CHR ''+'' then TOK_PLUS
      else if c = CHR ''-'' then TOK_MINUS
      else if c = CHR ''*'' then TOK_MULTIPLY
      else if c = CHR ''/'' then TOK_DIVIDE
      else if c = CHR ''^'' then TOK_POWER
      else if c = CHR ''('' then TOK_LEFT_PAREN
      else if c = CHR '')'' then TOK_RIGHT_PAREN
      else if c = CHR '','' then TOK_COMMA
      else TOK_INVALID)"

definition getNextToken :: "Lexer \<Rightarrow> Token \<times> Lexer" where
  "getNextToken lx0 =
     (let lx = skipWhitespace lx0
      in case remaining lx of
           [] \<Rightarrow> (\<lparr>tok_type = TOK_END_OF_FILE, tok_value = [], tok_position = position lx\<rparr>, lx)
         | current # rest \<Rightarrow>
             if isdigit current \<or> current = CHR ''.'' then readNumber lx
             else if isalpha current \<or> current = CHR ''_'' then readIdentifier lx
             else (\<lparr>tok_type = single_char_type current, tok_value = [current],
                    tok_position = position lx\<rparr>,
                   \<lparr>remaining = rest, position = position lx + 1\<rparr>))"

section \<open>The numeric expression tree\<close>

datatype ASTNode =
    NumberNode real
  | VariableNode string
  | BinaryOpNode BinaryOpType ASTNode ASTNode
  | UnaryOpNode UnaryOpType ASTNode
  | FunctionNode string "ASTNode list"


fun ast_evaluate :: "ASTNode \<Rightarrow> (string \<rightharpoonup> real) \<Rightarrow> error + real" where
  "ast_evaluate (NumberNode v) variables = Inr v"
| "ast_evaluate (VariableNode n) variables =
     (case variables n of None \<Rightarrow> Inl (''Undefined variable: '' @ n) | Some v \<Rightarrow> Inr v)"
| "ast_evaluate (BinaryOpNode opr l r) variables =
     (case ast_evaluate l variables of
        Inl e \<Rightarrow> Inl e
      | Inr leftVal \<Rightarrow>
          (case ast_evaluate r variables of
             Inl e \<Rightarrow> Inl e
           | Inr rightVal \<Rightarrow> binary_apply opr leftVal rightVal))"
| "ast_evaluate (UnaryOpNode opr e) variables =
     (case ast_evaluate e variables of Inl err \<Rightarrow> Inl err | Inr val \<Rightarrow> unary_apply opr val)"
| "ast_evaluate (FunctionNode f []) variables =
     Inl (''Function '' @ f @ '' expects 1 argument'')"
| "ast_evaluate (FunctionNode f [a]) variables =
     (case ast_evaluate a variables of Inl err \<Rightarrow> Inl err | Inr arg \<Rightarrow> function_apply f arg)"
| "ast_evaluate (FunctionNode f (a # b # cs)) variables =
     Inl (''Function '' @ f @ '' expects 1 argument'')"

section \<open>The parser\<close>

text \<open>
  \<open>std::stod\<close> on the text of a NUMBER token (which starts with a digit or a point and has
  no sign): the longest prefix of the form digits, optional point and digits, optional
  exponent is converted; an exponent letter that no digit follows is not part of the
  number. With no digit in the mantissa it throws \<open>std::invalid_argument\<close>, above the
  largest double \<open>std::out_of_range\<close>; in both cases \<open>what()\<close> is \<open>stod\<close>. The value is the
  exact decimal value, not its nearest double, and underflow is not modelled.
\<close>

definition digit_value :: "char \<Rightarrow> nat" where
  "digit_value c = of_char c - 48"

fun digits_value :: "string \<Rightarrow> nat" where
  "digits_value cs = foldl (\<lambda>acc c. 10 * acc + digit_value c) 0 cs"

definition DBL_MAX :: real where
  "DBL_MAX = (2 ^ 53 - 1) * 2 ^ 971"

definition stod_exponent :: "string \<Rightarrow> int" where
  "stod_exponent s =
     (case s of
        [] \<Rightarrow> 0
      | c # cs \<Rightarrow>
          if c = CHR ''e'' \<or> c = CHR ''E'' then
            (case cs of
               [] \<Rightarrow> 0
             | sg # ds \<Rightarrow>
                 if sg = CHR ''-'' then - int (digits_value (takeWhile isdigit ds))
                 else if sg = CHR ''+'' then int (digits_value (takeWhile isdigit ds))
                 else int (digits_value (takeWhile isdigit cs)))
          else 0)"

definition stod :: "string \<Rightarrow> error + real" where
  "stod s =
     (let intPart = takeWhile isdigit s;
          rest1 = dropWhile isdigit s;
          fracPart = (case rest1 of
                        [] \<Rightarrow> []
                      | c # cs \<Rightarrow> if c = CHR ''.'' then takeWhile isdigit cs else []);
          rest2 = (case rest1 of
                     [] \<Rightarrow> []
                   | c # cs \<Rightarrow> if c = CHR ''.'' then dropWhile isdigit cs else rest1)
      in if intPart = [] \<and> fracPart = [] then Inl ''stod''
         else
           (let v = real (digits_value (intPart @ fracPart))
                      * 10 powi (stod_exponent rest2 - int (length fracPart))
            in if DBL_MAX < v then Inl ''stod'' else Inr v))"

record Parser =
  lexer :: Lexer
  currentToken :: Token

definition advance :: "Parser \<Rightarrow> Parser" where
  "advance p = (case getNextToken (lexer p) of (t, lx) \<Rightarrow> \<lparr>lexer = lx, currentToken = t\<rparr>)"

text \<open>\<open>Parser::expect\<close>: the error it throws, if any.\<close>

definition expect :: "TokenType \<Rightarrow> string \<Rightarrow> Parser \<Rightarrow> error option" where
  "expect ty message p =
     (if tok_type (currentToken p) \<noteq> ty then
        Some ((if message = [] then ''Unexpected token'' else message) @ '' at position ''
              @ nat_to_string (tok_position (currentToken p)))
      else None)"

definition getPrecedence :: "TokenType \<Rightarrow> int" where
  "getPrecedence ty =
     (if ty = TOK_PLUS \<or> ty = TOK_MINUS then 1
      else if ty = TOK_MULTIPLY \<or> ty = TOK_DIVIDE then 2
      else if ty = TOK_POWER then 3
      else 0)"

definition isRightAssociative :: "TokenType \<Rightarrow> bool" where
  "isRightAssociative ty = (ty = TOK_POWER)"

text \<open>
  The recursive-descent functions. Each takes the parser's state and returns the tree with
  the state after it, or the error thrown. The first argument bounds the depth of the
  calls: \<open>None\<close> means that the bound was reached, and never stands for a result of the code.
  The \<open>while\<close> loops of \<open>parseTerm\<close>, \<open>parseFactor\<close> and \<open>parseFunction\<close> are the functions
  \<open>parseTerm_loop\<close>, \<open>parseFactor_loop\<close> and \<open>parseFunction_loop\<close>.
\<close>

type_synonym 'a parsed = "(error + 'a \<times> Parser) option"

definition starts_factor :: "TokenType \<Rightarrow> bool" where
  "starts_factor ty =
     (ty = TOK_NUMBER \<or> ty = TOK_VARIABLE \<or> ty = TOK_FUNCTION \<or> ty = TOK_LEFT_PAREN)"

fun parseExpression :: "nat \<Rightarrow> Parser \<Rightarrow> ASTNode parsed"
  and parseTerm :: "nat \<Rightarrow> Parser \<Rightarrow> ASTNode parsed"
  and parseTerm_loop :: "nat \<Rightarrow> ASTNode \<Rightarrow> Parser \<Rightarrow> ASTNode parsed"
  and parseFactor :: "nat \<Rightarrow> Parser \<Rightarrow> ASTNode parsed"
  and parseFactor_loop :: "nat \<Rightarrow> ASTNode \<Rightarrow> Parser \<Rightarrow> ASTNode parsed"
  and parsePower :: "nat \<Rightarrow> Parser \<Rightarrow> ASTNode parsed"
  and parsePrimary :: "nat \<Rightarrow> Parser \<Rightarrow> ASTNode parsed"
  and parseFunction :: "nat \<Rightarrow> Parser \<Rightarrow> ASTNode parsed"
  and parseFunction_loop :: "nat \<Rightarrow> ASTNode list \<Rightarrow> Parser \<Rightarrow> (ASTNode list) parsed"
where
  "parseExpression 0 p = None"
| "parseExpression (Suc n) p = parseTerm n p"
| "parseTerm 0 p = None"
| "parseTerm (Suc n) p =
     (case parseFactor n p of
        None \<Rightarrow> None
      | Some (Inl e) \<Rightarrow> Some (Inl e)
      | Some (Inr (left, p1)) \<Rightarrow> parseTerm_loop n left p1)"
| "parseTerm_loop 0 left p = None"
| "parseTerm_loop (Suc n) left p =
     (if tok_type (currentToken p) = TOK_PLUS \<or> tok_type (currentToken p) = TOK_MINUS then
        (case parseFactor n (advance p) of
           None \<Rightarrow> None
         | Some (Inl e) \<Rightarrow> Some (Inl e)
         | Some (Inr (right, p1)) \<Rightarrow>
             parseTerm_loop n
               (BinaryOpNode (if tok_type (currentToken p) = TOK_PLUS then ADD else SUBTRACT)
                  left right) p1)
      else Some (Inr (left, p)))"
| "parseFactor 0 p = None"
| "parseFactor (Suc n) p =
     (case parsePower n p of
        None \<Rightarrow> None
      | Some (Inl e) \<Rightarrow> Some (Inl e)
      | Some (Inr (left, p1)) \<Rightarrow> parseFactor_loop n left p1)"
| "parseFactor_loop 0 left p = None"
| "parseFactor_loop (Suc n) left p =
     (if tok_type (currentToken p) = TOK_MULTIPLY \<or> tok_type (currentToken p) = TOK_DIVIDE then
        (case parsePower n (advance p) of
           None \<Rightarrow> None
         | Some (Inl e) \<Rightarrow> Some (Inl e)
         | Some (Inr (right, p1)) \<Rightarrow>
             parseFactor_loop n
               (BinaryOpNode
                  (if tok_type (currentToken p) = TOK_MULTIPLY then MULTIPLY else DIVIDE)
                  left right) p1)
      else if starts_factor (tok_type (currentToken p)) then
        (case parsePower n p of
           None \<Rightarrow> None
         | Some (Inl e) \<Rightarrow> Some (Inl e)
         | Some (Inr (right, p1)) \<Rightarrow>
             parseFactor_loop n (BinaryOpNode MULTIPLY left right) p1)
      else Some (Inr (left, p)))"
| "parsePower 0 p = None"
| "parsePower (Suc n) p =
     (case parsePrimary n p of
        None \<Rightarrow> None
      | Some (Inl e) \<Rightarrow> Some (Inl e)
      | Some (Inr (left, p1)) \<Rightarrow>
          if tok_type (currentToken p1) = TOK_POWER then
            (case parsePower n (advance p1) of
               None \<Rightarrow> None
             | Some (Inl e) \<Rightarrow> Some (Inl e)
             | Some (Inr (right, p2)) \<Rightarrow> Some (Inr (BinaryOpNode POWER left right, p2)))
          else Some (Inr (left, p1)))"
| "parsePrimary 0 p = None"
| "parsePrimary (Suc n) p =
     (case tok_type (currentToken p) of
        TOK_NUMBER \<Rightarrow>
          (case stod (tok_value (currentToken p)) of
             Inl e \<Rightarrow> Some (Inl e)
           | Inr v \<Rightarrow> Some (Inr (NumberNode v, advance p)))
      | TOK_VARIABLE \<Rightarrow> Some (Inr (VariableNode (tok_value (currentToken p)), advance p))
      | TOK_FUNCTION \<Rightarrow> parseFunction n p
      | TOK_LEFT_PAREN \<Rightarrow>
          (case parseExpression n (advance p) of
             None \<Rightarrow> None
           | Some (Inl e) \<Rightarrow> Some (Inl e)
           | Some (Inr (expr, p1)) \<Rightarrow>
               (case expect TOK_RIGHT_PAREN ''Expected closing parenthesis'' p1 of
                  Some e \<Rightarrow> Some (Inl e)
                | None \<Rightarrow> Some (Inr (expr, advance p1))))
      | TOK_PLUS \<Rightarrow>
          (case parsePrimary n (advance p) of
             None \<Rightarrow> None
           | Some (Inl e) \<Rightarrow> Some (Inl e)
           | Some (Inr (operand, p1)) \<Rightarrow> Some (Inr (UnaryOpNode POSITIVE operand, p1)))
      | TOK_MINUS \<Rightarrow>
          (case parsePrimary n (advance p) of
             None \<Rightarrow> None
           | Some (Inl e) \<Rightarrow> Some (Inl e)
           | Some (Inr (operand, p1)) \<Rightarrow> Some (Inr (UnaryOpNode NEGATIVE operand, p1)))
      | _ \<Rightarrow> Some (Inl (''Unexpected token: '' @ tok_value (currentToken p))))"
| "parseFunction 0 p = None"
| "parseFunction (Suc n) p =
     (case expect TOK_LEFT_PAREN ''Expected opening parenthesis after function name''
             (advance p) of
        Some e \<Rightarrow> Some (Inl e)
      | None \<Rightarrow>
          (case (if tok_type (currentToken (advance (advance p))) \<noteq> TOK_RIGHT_PAREN then
                   (case parseExpression n (advance (advance p)) of
                      None \<Rightarrow> None
                    | Some (Inl e) \<Rightarrow> Some (Inl e)
                    | Some (Inr (arg, p1)) \<Rightarrow> parseFunction_loop n [arg] p1)
                 else Some (Inr ([], advance (advance p)))) of
             None \<Rightarrow> None
           | Some (Inl e) \<Rightarrow> Some (Inl e)
           | Some (Inr (arguments, p2)) \<Rightarrow>
               (case expect TOK_RIGHT_PAREN ''Expected closing parenthesis'' p2 of
                  Some e \<Rightarrow> Some (Inl e)
                | None \<Rightarrow>
                    Some (Inr (FunctionNode (tok_value (currentToken p)) arguments,
                               advance p2)))))"
| "parseFunction_loop 0 arguments p = None"
| "parseFunction_loop (Suc n) arguments p =
     (if tok_type (currentToken p) = TOK_COMMA then
        (case parseExpression n (advance p) of
           None \<Rightarrow> None
         | Some (Inl e) \<Rightarrow> Some (Inl e)
         | Some (Inr (arg, p1)) \<Rightarrow> parseFunction_loop n (arguments @ [arg]) p1)
      else Some (Inr (arguments, p)))"

text \<open>
  \<open>Parser::Parser\<close> reads the first token; \<open>Parser::parse\<close> parses an expression and expects
  the end of the input, rethrowing any exception with the same message.
\<close>

definition Parser_init :: "string \<Rightarrow> Parser" where
  "Parser_init expression =
     advance \<lparr>lexer = \<lparr>remaining = expression, position = 0\<rparr>,
              currentToken = \<lparr>tok_type = TOK_INVALID, tok_value = [], tok_position = 0\<rparr>\<rparr>"

definition Parser_parse :: "nat \<Rightarrow> string \<Rightarrow> (error + ASTNode) option" where
  "Parser_parse fuel expression =
     (case parseExpression fuel (Parser_init expression) of
        None \<Rightarrow> None
      | Some (Inl e) \<Rightarrow> Some (Inl e)
      | Some (Inr (result, p)) \<Rightarrow>
          (case expect TOK_END_OF_FILE ''Expected end of expression'' p of
             Some e \<Rightarrow> Some (Inl e)
           | None \<Rightarrow> Some (Inr result)))"

text \<open>
  \<open>ExpressionParser::parse\<close>: \<open>Inr\<close> is the tree stored in \<open>ast\<close> when it returns true, \<open>Inl\<close>
  the message stored in \<open>lastError\<close> when it returns false. The calls nest at most six deep
  for each character of the text, so the depth bound below is never reached (theorem
  \<open>parse_returns\<close>).
\<close>

definition parse_depth :: "string \<Rightarrow> nat" where
  "parse_depth expression = 8 * length expression + 16"

definition parse :: "string \<Rightarrow> (error + ASTNode) option" where
  "parse expression = Parser_parse (parse_depth expression) expression"

section \<open>The symbolic engine's facade\<close>

fun convertASTToSymbolic :: "ASTNode \<Rightarrow> SymbolicExpression" where
  "convertASTToSymbolic (NumberNode v) = SymbolicNumber v"
| "convertASTToSymbolic (VariableNode n) = SymbolicVariable n"
| "convertASTToSymbolic (BinaryOpNode opr l r) =
     SymbolicBinaryOp opr (convertASTToSymbolic l) (convertASTToSymbolic r)"
| "convertASTToSymbolic (UnaryOpNode opr e) = SymbolicUnaryOp opr (convertASTToSymbolic e)"
| "convertASTToSymbolic (FunctionNode f args) =
     SymbolicFunction f (map convertASTToSymbolic args)"

text \<open>
  \<open>SymbolicEngine::parseFromString\<close>: the engine's \<open>expression\<close> afterwards, when it returns
  true.
\<close>

definition parseFromString :: "string \<Rightarrow> SymbolicExpression option option" where
  "parseFromString expressionStr =
     (case parse expressionStr of
        None \<Rightarrow> None
      | Some (Inl e) \<Rightarrow> Some None
      | Some (Inr ast) \<Rightarrow> Some (Some (convertASTToSymbolic ast)))"

text \<open>
  \<open>SymbolicEngine::solve\<close> on the engine's \<open>expression\<close> (\<open>None\<close> when there is none). Every
  exception thrown inside its \<open>try\<close> block is rethrown with the prefix
  \<open>Equation solving failed:\<close>.
\<close>

definition solve_body :: "SymbolicExpression \<Rightarrow> error + SymbolicExpression" where
  "solve_body expression =
     (case simplify expression of
        Inl e \<Rightarrow> Inl e
      | Inr simplified \<Rightarrow>
          (case simplified of
             SymbolicBinaryOp opr left right \<Rightarrow>
               if (opr = ADD \<or> opr = SUBTRACT) \<and> isConstant left then
                 (if opr = ADD then
                    Inr (SymbolicBinaryOp DIVIDE (SymbolicUnaryOp NEGATIVE left) right)
                  else Inr (SymbolicBinaryOp DIVIDE left right))
               else Inl ''Complex equation solving not implemented''
           | _ \<Rightarrow> Inl ''Complex equation solving not implemented''))"

definition solve :: "SymbolicExpression option \<Rightarrow> string \<Rightarrow> error + SymbolicExpression" where
  "solve expression variable =
     (case expression of
        None \<Rightarrow> Inl ''No expression to solve''
      | Some e \<Rightarrow>
          (case solve_body e of
             Inl err \<Rightarrow> Inl (''Equation solving failed: '' @ err)
           | Inr solution \<Rightarrow> Inr solution))"

section \<open>Notions used to state the parser's properties\<close>

text \<open>
  The trees that the parser can build: a number is not negative (no NUMBER token has a
  sign), a variable's name is an identifier outside the registry of function names, a unary
  node is a prefix plus or minus, and a function call's name is in the registry.
\<close>

definition is_identifier :: "string \<Rightarrow> bool" where
  "is_identifier n =
     (n \<noteq> [] \<and> (isalpha (hd n) \<or> hd n = CHR ''_'')
      \<and> (\<forall>c \<in> set n. isalnum c \<or> c = CHR ''_''))"

fun parser_output :: "ASTNode \<Rightarrow> bool" where
  "parser_output (NumberNode v) = (0 \<le> v)"
| "parser_output (VariableNode n) = (is_identifier n \<and> \<not> isFunction n)"
| "parser_output (BinaryOpNode opr l r) = (parser_output l \<and> parser_output r)"
| "parser_output (UnaryOpNode opr e) = ((opr = POSITIVE \<or> opr = NEGATIVE) \<and> parser_output e)"
| "parser_output (FunctionNode f args) = (isFunction f \<and> (\<forall>a \<in> set args. parser_output a))"


text \<open>
  The parser's state when the lexer stood at position \<open>pos\<close> before the text \<open>s\<close> and the
  parser then advanced: the current token is the first token of \<open>s\<close>.
\<close>

definition lex_at :: "string \<Rightarrow> nat \<Rightarrow> Parser" where
  "lex_at s pos =
     advance \<lparr>lexer = \<lparr>remaining = s, position = pos\<rparr>,
              currentToken = \<lparr>tok_type = TOK_INVALID, tok_value = [], tok_position = 0\<rparr>\<rparr>"

text \<open>
  A text that may follow a printed subtree: nothing, or a text that starts with a space, a
  closing parenthesis or a comma.
\<close>

definition delimited :: "string \<Rightarrow> bool" where
  "delimited rest = (rest = [] \<or> hd rest \<in> {CHR '' '', CHR '')'', CHR '',''})"

text \<open>The printed arguments of a call after the first one, each with its separator.\<close>

fun more_args :: "string list \<Rightarrow> string" where
  "more_args [] = []"
| "more_args (s # ss) = '', '' @ s @ more_args ss"


text \<open>
  The parser's state is well lexed when a current token of type VARIABLE carries an
  identifier outside the registry, and one of type FUNCTION a name of the registry.
\<close>

definition well_lexed :: "Parser \<Rightarrow> bool" where
  "well_lexed p =
     ((tok_type (currentToken p) = TOK_VARIABLE \<longrightarrow>
         is_identifier (tok_value (currentToken p)) \<and> \<not> isFunction (tok_value (currentToken p)))
      \<and> (tok_type (currentToken p) = TOK_FUNCTION \<longrightarrow> isFunction (tok_value (currentToken p))))"

text \<open>
  At depth bound \<open>n\<close>, each of the nine parsing functions, started in a well-lexed state
  (the loops with trees that the parser can build), returns only trees that the parser can
  build, and a well-lexed state.
\<close>

definition all_output :: "nat \<Rightarrow> bool" where
  "all_output n =
     ((\<forall>p t p'. well_lexed p \<longrightarrow> parseExpression n p = Some (Inr (t, p')) \<longrightarrow>
          parser_output t \<and> well_lexed p')
      \<and> (\<forall>p t p'. well_lexed p \<longrightarrow> parseTerm n p = Some (Inr (t, p')) \<longrightarrow>
          parser_output t \<and> well_lexed p')
      \<and> (\<forall>p l t p'. well_lexed p \<longrightarrow> parser_output l \<longrightarrow>
          parseTerm_loop n l p = Some (Inr (t, p')) \<longrightarrow> parser_output t \<and> well_lexed p')
      \<and> (\<forall>p t p'. well_lexed p \<longrightarrow> parseFactor n p = Some (Inr (t, p')) \<longrightarrow>
          parser_output t \<and> well_lexed p')
      \<and> (\<forall>p l t p'. well_lexed p \<longrightarrow> parser_output l \<longrightarrow>
          parseFactor_loop n l p = Some (Inr (t, p')) \<longrightarrow> parser_output t \<and> well_lexed p')
      \<and> (\<forall>p t p'. well_lexed p \<longrightarrow> parsePower n p = Some (Inr (t, p')) \<longrightarrow>
          parser_output t \<and> well_lexed p')
      \<and> (\<forall>p t p'. well_lexed p \<longrightarrow> parsePrimary n p = Some (Inr (t, p')) \<longrightarrow>
          parser_output t \<and> well_lexed p')
      \<and> (\<forall>p t p'. well_lexed p \<longrightarrow> tok_type (currentToken p) = TOK_FUNCTION \<longrightarrow>
          parseFunction n p = Some (Inr (t, p')) \<longrightarrow> parser_output t \<and> well_lexed p')
      \<and> (\<forall>p acc ts p'. well_lexed p \<longrightarrow> (\<forall>a \<in> set acc. parser_output a) \<longrightarrow>
          parseFunction_loop n acc p = Some (Inr (ts, p')) \<longrightarrow>
          (\<forall>a \<in> set ts. parser_output a) \<and> well_lexed p'))"

subsection \<open>Notions used to show that the parser returns\<close>

text \<open>
  The number of characters the parser has not consumed yet: those the lexer has not read and
  those of the current token. Every token but the end of input has at least one character, so
  each step over a token decreases it.
\<close>

definition unread :: "Parser \<Rightarrow> nat" where
  "unread p = length (remaining (lexer p)) + length (tok_value (currentToken p))"

text \<open>
  The current token has text unless it is the end of input; this holds of every token the lexer
  produces.
\<close>

definition token_present :: "Parser \<Rightarrow> bool" where
  "token_present p =
     (tok_type (currentToken p) \<noteq> TOK_END_OF_FILE \<longrightarrow> tok_value (currentToken p) \<noteq> [])"

text \<open>
  A parsing function run from \<open>p\<close> returned (an error, or a tree and a state that has not more
  unread text than \<open>p\<close>, strictly less when \<open>strict\<close>); running out of depth is excluded.
\<close>

definition consumes :: "bool \<Rightarrow> Parser \<Rightarrow> 'a parsed \<Rightarrow> bool" where
  "consumes strict p res =
     (case res of
        None \<Rightarrow> False
      | Some (Inl e) \<Rightarrow> True
      | Some (Inr (x, p')) \<Rightarrow>
          token_present p' \<and> (if strict then unread p' < unread p else unread p' \<le> unread p))"

text \<open>
  With depth \<open>n\<close>, each parsing function returns on every state whose unread text is short
  enough for \<open>n\<close>: six levels for each unread character, and one to six more according to the
  position of the function in the chain \<open>parseExpression\<close>, \<open>parseTerm\<close>, \<open>parseFactor\<close>,
  \<open>parsePower\<close>, \<open>parsePrimary\<close>, \<open>parseFunction\<close>.
\<close>

definition all_return :: "nat \<Rightarrow> bool" where
  "all_return n =
     ((\<forall>p. token_present p \<longrightarrow> 6 * unread p + 6 \<le> n \<longrightarrow>
          consumes True p (parseExpression n p))
      \<and> (\<forall>p. token_present p \<longrightarrow> 6 * unread p + 5 \<le> n \<longrightarrow> consumes True p (parseTerm n p))
      \<and> (\<forall>p l. token_present p \<longrightarrow> 6 * unread p + 5 \<le> n \<longrightarrow>
          consumes False p (parseTerm_loop n l p))
      \<and> (\<forall>p. token_present p \<longrightarrow> 6 * unread p + 4 \<le> n \<longrightarrow> consumes True p (parseFactor n p))
      \<and> (\<forall>p l. token_present p \<longrightarrow> 6 * unread p + 4 \<le> n \<longrightarrow>
          consumes False p (parseFactor_loop n l p))
      \<and> (\<forall>p. token_present p \<longrightarrow> 6 * unread p + 3 \<le> n \<longrightarrow> consumes True p (parsePower n p))
      \<and> (\<forall>p. token_present p \<longrightarrow> 6 * unread p + 2 \<le> n \<longrightarrow> consumes True p (parsePrimary n p))
      \<and> (\<forall>p. token_present p \<longrightarrow> tok_type (currentToken p) = TOK_FUNCTION \<longrightarrow>
          6 * unread p + 1 \<le> n \<longrightarrow> consumes True p (parseFunction n p))
      \<and> (\<forall>p acc. token_present p \<longrightarrow> 6 * unread p + 1 \<le> n \<longrightarrow>
          consumes False p (parseFunction_loop n acc p)))"


section \<open>Properties of the symbolic engine\<close>

subsection \<open>Helper facts about simplification\<close>

lemma collect_Inr_set:
  "collect rs = Inr xs \<Longrightarrow> x \<in> set xs \<Longrightarrow> Inr x \<in> set rs"
proof (induction rs arbitrary: xs)
  case Nil
  then show ?case by simp
next
  case (Cons r rs)
  then show ?case
    by (cases r) (auto split: sum.splits)
qed

lemma fold_constants_vars:
  "fold_constants opr l r = Inr s \<Longrightarrow> variables_of s = {}"
  by (auto simp: fold_constants_def split: sum.splits)

lemma number_of_evaluate_vars:
  "number_of_evaluate self = Inr s \<Longrightarrow> variables_of s = {}"
  by (auto simp: number_of_evaluate_def split: sum.splits)

lemma simplify_binary_vars:
  "simplify_binary opr l r = Inr s \<Longrightarrow> variables_of s \<subseteq> variables_of l \<union> variables_of r"
  by (cases opr) (auto simp: simplify_binary_def dest: fold_constants_vars split: if_splits)

lemma negated_operand_vars:
  "negated_operand e = Some x \<Longrightarrow> variables_of x = variables_of e"
  by (auto simp: negated_operand_def split: SymbolicExpression.splits UnaryOpType.splits)

lemma simplify_unary_vars:
  "simplify_unary self opr e = Inr s \<Longrightarrow> variables_of s \<subseteq> variables_of e"
  by (auto simp: simplify_unary_def dest: number_of_evaluate_vars negated_operand_vars
      split: if_splits option.splits)

subsection \<open>C1: simplification is not idempotent on \<open>0 - (-x)\<close>\<close>

text \<open>
  C1 states that simplifying twice gives the same tree as simplifying once. The rule
  \<open>0 - r \<rightarrow> -r\<close> of \<open>SymbolicBinaryOp::simplify\<close> builds a negation node around the
  simplified right operand without applying the double-negation rule that
  \<open>SymbolicUnaryOp::simplify\<close> has. For \<open>0 - (-x)\<close> (the parse of the text \<open>0 - -x\<close>) the first
  simplification returns \<open>-(-x)\<close> and the second one returns \<open>x\<close>: the two differ.
\<close>

theorem simplify_twice_differs:
  "simplify (SymbolicBinaryOp SUBTRACT (SymbolicNumber 0)
              (SymbolicUnaryOp NEGATIVE (SymbolicVariable ''x'')))
     = Inr (SymbolicUnaryOp NEGATIVE (SymbolicUnaryOp NEGATIVE (SymbolicVariable ''x'')))
   \<and> simplify (SymbolicUnaryOp NEGATIVE (SymbolicUnaryOp NEGATIVE (SymbolicVariable ''x'')))
     = Inr (SymbolicVariable ''x'')
   \<and> SymbolicUnaryOp NEGATIVE (SymbolicUnaryOp NEGATIVE (SymbolicVariable ''x''))
     \<noteq> SymbolicVariable ''x''"
  by (simp add: simplify_binary_def simplify_unary_def negated_operand_def)

subsection \<open>C2: the variables of a simplified expression\<close>

text \<open>
  C2 as stated (the simplified expression has exactly the variables of the original) fails:
  the annihilator rule turns \<open>x * 0\<close> into \<open>0\<close>, which has no variable.
\<close>

theorem simplify_variables_counterexample:
  "simplify (SymbolicBinaryOp MULTIPLY (SymbolicVariable ''x'') (SymbolicNumber 0))
     = Inr (SymbolicNumber 0)
   \<and> variables_of (SymbolicNumber 0)
     \<noteq> variables_of (SymbolicBinaryOp MULTIPLY (SymbolicVariable ''x'') (SymbolicNumber 0))"
  by (simp add: simplify_binary_def)

text \<open>
  C2 amended: whenever simplify succeeds on \<open>e\<close>, every variable name that occurs in the
  result occurs in \<open>e\<close>; simplification introduces no variable, and may drop some.
\<close>

theorem simplify_variables_subset:
  "simplify e = Inr s \<Longrightarrow> variables_of s \<subseteq> variables_of e"
proof (induction e arbitrary: s rule: simplify.induct)
  case (1 v)
  then show ?case by auto
next
  case (2 n)
  then show ?case by auto
next
  case (3 opr l r)
  from "3.prems" obtain sl sr where
    sl: "simplify l = Inr sl" and sr: "simplify r = Inr sr"
    and sb: "simplify_binary opr sl sr = Inr s"
    by (auto split: sum.splits)
  have "variables_of sl \<subseteq> variables_of l" using "3.IH"(1) sl by simp
  moreover have "variables_of sr \<subseteq> variables_of r" using "3.IH"(2) sl sr by simp
  ultimately show ?case using simplify_binary_vars [OF sb] by auto
next
  case (4 opr e)
  from "4.prems" obtain se where
    se: "simplify e = Inr se" and su: "simplify_unary (SymbolicUnaryOp opr e) opr se = Inr s"
    by (auto split: sum.splits)
  have "variables_of se \<subseteq> variables_of e" using "4.IH" se by simp
  then show ?case using simplify_unary_vars [OF su] by auto
next
  case (5 f args)
  from "5.prems" obtain sargs where
    c: "collect (map simplify args) = Inr sargs"
    and r: "(if \<forall>a \<in> set sargs. isConstant a
             then number_of_evaluate (SymbolicFunction f args)
             else Inr (SymbolicFunction f sargs)) = Inr s"
    by (auto split: sum.splits)
  show ?case
  proof (cases "\<forall>a \<in> set sargs. isConstant a")
    case True
    then show ?thesis using r number_of_evaluate_vars by fastforce
  next
    case False
    with r have s: "s = SymbolicFunction f sargs" by (simp split: if_splits)
    have "variables_of x \<subseteq> (\<Union>a \<in> set args. variables_of a)" if "x \<in> set sargs" for x
    proof -
      from collect_Inr_set [OF c that] obtain a where a: "a \<in> set args" "simplify a = Inr x"
        by auto
      then have "variables_of x \<subseteq> variables_of a" using "5.IH" by simp
      then show ?thesis using a by auto
    qed
    then show ?thesis using s by auto
  qed
qed

theorem simplify_variables_subset_witness:
  "simplify (SymbolicBinaryOp ADD (SymbolicVariable ''x'')
              (SymbolicBinaryOp MULTIPLY (SymbolicVariable ''y'') (SymbolicNumber 0)))
     = Inr (SymbolicVariable ''x'')
   \<and> variables_of (SymbolicVariable ''x'')
     \<subseteq> variables_of (SymbolicBinaryOp ADD (SymbolicVariable ''x'')
              (SymbolicBinaryOp MULTIPLY (SymbolicVariable ''y'') (SymbolicNumber 0)))"
proof -
  have h: "simplify (SymbolicBinaryOp ADD (SymbolicVariable ''x'')
              (SymbolicBinaryOp MULTIPLY (SymbolicVariable ''y'') (SymbolicNumber 0)))
     = Inr (SymbolicVariable ''x'')"
    by (simp add: simplify_binary_def)
  show ?thesis using h simplify_variables_subset [OF h] by simp
qed

subsection \<open>C6: the power rule\<close>



subsection \<open>C7: integrating a product\<close>



subsection \<open>C10: constant folding of a unary node evaluates the original node\<close>

text \<open>
  C10 gives \<open>Neg(0 * x)\<close> as an expression on which simplify raises an undefined-variable
  error. It does not: the operand simplifies to the number 0, and the zero check of the
  negation comes before the constant fold, so the result is the number 0.
\<close>

theorem simplify_neg_zero_times_x_counterexample:
  "simplify (SymbolicUnaryOp NEGATIVE
              (SymbolicBinaryOp MULTIPLY (SymbolicNumber 0) (SymbolicVariable ''x'')))
     = Inr (SymbolicNumber 0)"
  by (simp add: simplify_binary_def simplify_unary_def)

text \<open>
  C10 amended: when a unary node's simplified operand is constant, and the node is neither
  a Pos node nor a Neg node whose simplified operand is zero or itself a negation, simplify
  folds it by numerically evaluating the original unsimplified node with no variable bound:
  the result is the number it evaluates to, or the evaluation's error. Hence for some
  expressions whose operand simplifies to a constant but still contains a variable, such
  as \<open>Neg(x^0)\<close>, simplify raises an undefined-variable error instead of returning a tree.
\<close>

theorem simplify_unary_folds_original:
  assumes "simplify e = Inr simplifiedOperand"
    and "isConstant simplifiedOperand"
    and "opr \<noteq> POSITIVE"
    and "opr = NEGATIVE \<Longrightarrow>
           \<not> isZero simplifiedOperand \<and> negated_operand simplifiedOperand = None"
  shows "simplify (SymbolicUnaryOp opr e)
           = (case evaluate (SymbolicUnaryOp opr e) Map.empty of
                Inl err \<Rightarrow> Inl err
              | Inr v \<Rightarrow> Inr (SymbolicNumber v))
         \<and> simplify (SymbolicUnaryOp NEGATIVE
                      (SymbolicBinaryOp POWER (SymbolicVariable ''x'') (SymbolicNumber 0)))
           = Inl ''Undefined variable: x''"
proof -
  have "simplify_unary (SymbolicUnaryOp opr e) opr simplifiedOperand
          = number_of_evaluate (SymbolicUnaryOp opr e)"
    using assms(2-4) by (auto simp: simplify_unary_def)
  then have "simplify (SymbolicUnaryOp opr e) = number_of_evaluate (SymbolicUnaryOp opr e)"
    using assms(1) by simp
  moreover have "simplify (SymbolicUnaryOp NEGATIVE
                      (SymbolicBinaryOp POWER (SymbolicVariable ''x'') (SymbolicNumber 0)))
           = Inl ''Undefined variable: x''"
    by (simp add: simplify_binary_def simplify_unary_def negated_operand_def
        number_of_evaluate_def)
  ultimately show ?thesis by (simp add: number_of_evaluate_def)
qed

theorem simplify_unary_folds_original_witness:
  "simplify (SymbolicUnaryOp SIN
              (SymbolicBinaryOp MULTIPLY (SymbolicNumber 0) (SymbolicVariable ''x'')))
     = Inl ''Undefined variable: x''
   \<and> simplify (SymbolicUnaryOp COS
              (SymbolicBinaryOp ADD (SymbolicNumber 0) (SymbolicNumber 0)))
     = Inr (SymbolicNumber 1)"
proof -
  have a: "simplify (SymbolicBinaryOp MULTIPLY (SymbolicNumber 0) (SymbolicVariable ''x''))
             = Inr (SymbolicNumber 0)"
    by (simp add: simplify_binary_def)
  have b: "simplify (SymbolicBinaryOp ADD (SymbolicNumber 0) (SymbolicNumber 0))
             = Inr (SymbolicNumber 0)"
    by (simp add: simplify_binary_def)
  show ?thesis
    using simplify_unary_folds_original [OF a, of SIN]
          simplify_unary_folds_original [OF b, of COS]
    by (simp add: binary_apply_def unary_apply_def)
qed

section \<open>Properties of the parser\<close>

subsection \<open>Evaluating the parser on a given text\<close>

text \<open>
  The equations of the parser, of \<open>digits_width\<close> and of \<open>nat_to_string\<close> for a depth or a
  number given as a numeral, and the definitions that the simplifier unfolds to run the
  lexer, the parser and the number printer on a concrete text.
\<close>

lemmas parser_numeral_simps =
  parseExpression.simps(2) [of "pred_numeral k", folded numeral_eq_Suc]
  parseTerm.simps(2) [of "pred_numeral k", folded numeral_eq_Suc]
  parseTerm_loop.simps(2) [of "pred_numeral k", folded numeral_eq_Suc]
  parseFactor.simps(2) [of "pred_numeral k", folded numeral_eq_Suc]
  parseFactor_loop.simps(2) [of "pred_numeral k", folded numeral_eq_Suc]
  parsePower.simps(2) [of "pred_numeral k", folded numeral_eq_Suc]
  parsePrimary.simps(2) [of "pred_numeral k", folded numeral_eq_Suc]
  parseFunction.simps(2) [of "pred_numeral k", folded numeral_eq_Suc]
  parseFunction_loop.simps(2) [of "pred_numeral k", folded numeral_eq_Suc]
  for k

lemmas lexer_defs = advance_def getNextToken_def skipWhitespace_def readNumber_def
  readIdentifier_def isFunction_def single_char_type_def isdigit_def isalpha_def isalnum_def
  isspace_def

lemmas stod_defs = stod_def stod_exponent_def digit_value_def DBL_MAX_def

lemmas parser_defs = parse_def parse_depth_def Parser_parse_def Parser_init_def expect_def
  starts_factor_def Let_def

lemmas run_parser = parser_defs lexer_defs stod_defs parser_numeral_simps

lemmas case_weak_congs = TokenType.case_cong_weak option.case_cong_weak sum.case_cong_weak
  prod.case_cong_weak list.case_cong_weak




subsection \<open>The parser returns on every text\<close>

text \<open>
  The depth given to the parsing functions by \<open>parse\<close> is enough for every input: \<open>parse\<close> never
  runs out of it, so its result is always the tree or the error message of the source.
\<close>

lemma length_number_chars: "length (number_chars b s) \<le> length s"
  by (induction b s rule: number_chars.induct)
     (auto split: list.splits intro: le_trans [OF length_takeWhile_le])

lemma number_chars_not_Nil: "isdigit c \<or> c = CHR ''.'' \<Longrightarrow> number_chars False (c # cs) \<noteq> []"
  by auto

lemma unread_advance: "unread (advance p) \<le> length (remaining (lexer p))"
proof -
  obtain s q where sk: "skipWhitespace (lexer p) = \<lparr>remaining = s, position = q\<rparr>"
    by (cases "skipWhitespace (lexer p)") auto
  then have s: "s = dropWhile isspace (remaining (lexer p))"
    by (simp add: skipWhitespace_def)
  have le: "length s \<le> length (remaining (lexer p))"
    unfolding s by (rule length_dropWhile_le)
  have "unread (advance p) \<le> length s"
  proof (cases s)
    case Nil
    then show ?thesis using sk by (simp add: unread_def advance_def getNextToken_def)
  next
    case (Cons c cs)
    show ?thesis
      using sk Cons length_number_chars [of False "c # cs"]
        length_takeWhile_le [of "\<lambda>c. isalnum c \<or> c = CHR ''_''" "c # cs"]
      by (auto simp: unread_def advance_def getNextToken_def readNumber_def readIdentifier_def
          Let_def)
  qed
  then show ?thesis using le by simp
qed

lemma token_present_advance [simp]: "token_present (advance p)"
proof -
  obtain s q where sk: "skipWhitespace (lexer p) = \<lparr>remaining = s, position = q\<rparr>"
    by (cases "skipWhitespace (lexer p)") auto
  show ?thesis
  proof (cases s)
    case Nil
    then show ?thesis using sk by (simp add: token_present_def advance_def getNextToken_def)
  next
    case (Cons c cs)
    show ?thesis
      using sk Cons
      by (auto simp: token_present_def advance_def getNextToken_def readNumber_def
          readIdentifier_def Let_def isalnum_def)
  qed
qed

lemma unread_advance_le: "unread (advance p) \<le> unread p"
  using unread_advance [of p] by (simp add: unread_def)

lemma unread_advance_less:
  "token_present p \<Longrightarrow> tok_type (currentToken p) \<noteq> TOK_END_OF_FILE \<Longrightarrow>
     Suc (unread (advance p)) \<le> unread p"
  using unread_advance [of p] by (cases "tok_value (currentToken p)") (auto simp: unread_def token_present_def)

lemma consumes_error [simp]: "consumes s p (Some (Inl e))"
  by (simp add: consumes_def)

lemma consumes_result:
  "consumes s p (Some (Inr (x, p'))) =
     (token_present p' \<and> (if s then unread p' < unread p else unread p' \<le> unread p))"
  by (simp add: consumes_def)

lemma consumes_weaken:
  assumes "consumes s1 p1 res" and "unread p1 \<le> unread p" and "s \<Longrightarrow> s1 \<or> unread p1 < unread p"
  shows "consumes s p res"
  using assms by (auto simp: consumes_def split: option.splits sum.splits if_splits)

lemma consumes_case:
  assumes "consumes s1 p1 x"
    and "\<And>a p2. x = Some (Inr (a, p2)) \<Longrightarrow> token_present p2 \<Longrightarrow> unread p2 \<le> unread p1 \<Longrightarrow>
           (s1 \<Longrightarrow> unread p2 < unread p1) \<Longrightarrow> consumes s p (k a p2)"
  shows "consumes s p (case x of None \<Rightarrow> None | Some (Inl e) \<Rightarrow> Some (Inl e)
                        | Some (Inr (a, p2)) \<Rightarrow> k a p2)"
  using assms by (auto simp: consumes_def split: option.splits sum.splits if_splits)

lemma consumes_expect:
  assumes "consumes s p (Some (Inr r))"
  shows "consumes s p (case expect ty msg q of Some e \<Rightarrow> Some (Inl e) | None \<Rightarrow> Some (Inr r))"
  using assms by (cases "expect ty msg q") auto

lemma all_return_0: "all_return 0"
  by (simp add: all_return_def)

lemma all_return_Suc:
  assumes "all_return n"
  shows "all_return (Suc n)"
proof -
  have e: "consumes True p (parseExpression n p)"
    if "token_present p" "6 * unread p + 6 \<le> n" for p
    using assms that unfolding all_return_def by fast
  have t: "consumes True p (parseTerm n p)"
    if "token_present p" "6 * unread p + 5 \<le> n" for p
    using assms that unfolding all_return_def by fast
  have tl: "consumes False p (parseTerm_loop n l p)"
    if "token_present p" "6 * unread p + 5 \<le> n" for p l
    using assms that unfolding all_return_def by fast
  have f: "consumes True p (parseFactor n p)"
    if "token_present p" "6 * unread p + 4 \<le> n" for p
    using assms that unfolding all_return_def by fast
  have fl: "consumes False p (parseFactor_loop n l p)"
    if "token_present p" "6 * unread p + 4 \<le> n" for p l
    using assms that unfolding all_return_def by fast
  have pw: "consumes True p (parsePower n p)"
    if "token_present p" "6 * unread p + 3 \<le> n" for p
    using assms that unfolding all_return_def by fast
  have pr: "consumes True p (parsePrimary n p)"
    if "token_present p" "6 * unread p + 2 \<le> n" for p
    using assms that unfolding all_return_def by fast
  have fn: "consumes True p (parseFunction n p)"
    if "token_present p" "tok_type (currentToken p) = TOK_FUNCTION" "6 * unread p + 1 \<le> n" for p
    using assms that unfolding all_return_def by fast
  have lp: "consumes False p (parseFunction_loop n acc p)"
    if "token_present p" "6 * unread p + 1 \<le> n" for p acc
    using assms that unfolding all_return_def by fast
  have 1: "consumes True p (parseExpression (Suc n) p)"
    if "token_present p" "6 * unread p + 6 \<le> Suc n" for p
    using t [OF that(1)] that(2) by simp
  have 2: "consumes True p (parseTerm (Suc n) p)"
    if tp: "token_present p" and b: "6 * unread p + 5 \<le> Suc n" for p
  proof -
    have "consumes True p (case parseFactor n p of None \<Rightarrow> None | Some (Inl e) \<Rightarrow> Some (Inl e)
        | Some (Inr (left, p1)) \<Rightarrow> parseTerm_loop n left p1)"
    proof (rule consumes_case [where ?s1.0 = True and ?p1.0 = p])
      show "consumes True p (parseFactor n p)" by (rule f [OF tp]) (use b in simp)
    next
      fix a p2
      assume p2: "token_present p2" and st: "True \<Longrightarrow> unread p2 < unread p"
      have "consumes False p2 (parseTerm_loop n a p2)"
        by (rule tl [OF p2]) (use b st in simp)
      then show "consumes True p (parseTerm_loop n a p2)"
        by (rule consumes_weaken) (use st in simp_all)
    qed
    then show ?thesis by simp
  qed
  have 3: "consumes False p (parseTerm_loop (Suc n) l p)"
    if tp: "token_present p" and b: "6 * unread p + 5 \<le> Suc n" for p l
  proof (cases "tok_type (currentToken p) = TOK_PLUS \<or> tok_type (currentToken p) = TOK_MINUS")
    case True
    let ?op = "if tok_type (currentToken p) = TOK_PLUS then ADD else SUBTRACT"
    have a: "Suc (unread (advance p)) \<le> unread p"
      by (rule unread_advance_less [OF tp]) (use True in auto)
    have "consumes False p (case parseFactor n (advance p) of
           None \<Rightarrow> None
         | Some (Inl e) \<Rightarrow> Some (Inl e)
         | Some (Inr (right, p1)) \<Rightarrow> parseTerm_loop n (BinaryOpNode ?op l right) p1)"
    proof (rule consumes_case [where ?s1.0 = True and ?p1.0 = "advance p"])
      show "consumes True (advance p) (parseFactor n (advance p))"
        by (rule f) (use a b in simp_all)
    next
      fix r p2
      assume p2: "token_present p2" and le: "unread p2 \<le> unread (advance p)"
      have "consumes False p2 (parseTerm_loop n (BinaryOpNode ?op l r) p2)"
        by (rule tl [OF p2]) (use a b le in simp)
      then show "consumes False p (parseTerm_loop n (BinaryOpNode ?op l r) p2)"
        by (rule consumes_weaken) (use a le in simp_all)
    qed
    then show ?thesis using True by simp
  next
    case False
    then show ?thesis using tp by (simp add: consumes_result)
  qed
  have 4: "consumes True p (parseFactor (Suc n) p)"
    if tp: "token_present p" and b: "6 * unread p + 4 \<le> Suc n" for p
  proof -
    have "consumes True p (case parsePower n p of None \<Rightarrow> None | Some (Inl e) \<Rightarrow> Some (Inl e)
        | Some (Inr (left, p1)) \<Rightarrow> parseFactor_loop n left p1)"
    proof (rule consumes_case [where ?s1.0 = True and ?p1.0 = p])
      show "consumes True p (parsePower n p)" by (rule pw [OF tp]) (use b in simp)
    next
      fix a p2
      assume p2: "token_present p2" and st: "True \<Longrightarrow> unread p2 < unread p"
      have "consumes False p2 (parseFactor_loop n a p2)"
        by (rule fl [OF p2]) (use b st in simp)
      then show "consumes True p (parseFactor_loop n a p2)"
        by (rule consumes_weaken) (use st in simp_all)
    qed
    then show ?thesis by simp
  qed
  have 5: "consumes False p (parseFactor_loop (Suc n) l p)"
    if tp: "token_present p" and b: "6 * unread p + 4 \<le> Suc n" for p l
  proof (cases "tok_type (currentToken p) = TOK_MULTIPLY \<or> tok_type (currentToken p) = TOK_DIVIDE")
    case True
    let ?op = "if tok_type (currentToken p) = TOK_MULTIPLY then MULTIPLY else DIVIDE"
    have a: "Suc (unread (advance p)) \<le> unread p"
      by (rule unread_advance_less [OF tp]) (use True in auto)
    have "consumes False p (case parsePower n (advance p) of
           None \<Rightarrow> None
         | Some (Inl e) \<Rightarrow> Some (Inl e)
         | Some (Inr (right, p1)) \<Rightarrow> parseFactor_loop n (BinaryOpNode ?op l right) p1)"
    proof (rule consumes_case [where ?s1.0 = True and ?p1.0 = "advance p"])
      show "consumes True (advance p) (parsePower n (advance p))"
        by (rule pw) (use a b in simp_all)
    next
      fix r p2
      assume p2: "token_present p2" and le: "unread p2 \<le> unread (advance p)"
      have "consumes False p2 (parseFactor_loop n (BinaryOpNode ?op l r) p2)"
        by (rule fl [OF p2]) (use a b le in simp)
      then show "consumes False p (parseFactor_loop n (BinaryOpNode ?op l r) p2)"
        by (rule consumes_weaken) (use a le in simp_all)
    qed
    then show ?thesis using True by simp
  next
    case False
    show ?thesis
    proof (cases "starts_factor (tok_type (currentToken p))")
      case True
      have "consumes False p (case parsePower n p of
           None \<Rightarrow> None
         | Some (Inl e) \<Rightarrow> Some (Inl e)
         | Some (Inr (right, p1)) \<Rightarrow> parseFactor_loop n (BinaryOpNode MULTIPLY l right) p1)"
      proof (rule consumes_case [where ?s1.0 = True and ?p1.0 = p])
        show "consumes True p (parsePower n p)" by (rule pw [OF tp]) (use b in simp)
      next
        fix r p2
        assume p2: "token_present p2" and st: "True \<Longrightarrow> unread p2 < unread p"
        have "consumes False p2 (parseFactor_loop n (BinaryOpNode MULTIPLY l r) p2)"
          by (rule fl [OF p2]) (use b st in simp)
        then show "consumes False p (parseFactor_loop n (BinaryOpNode MULTIPLY l r) p2)"
          by (rule consumes_weaken) (use st in simp_all)
      qed
      then show ?thesis using True False by simp
    next
      case f2: False
      then show ?thesis using False tp by (simp add: consumes_result)
    qed
  qed
  have 6: "consumes True p (parsePower (Suc n) p)"
    if tp: "token_present p" and b: "6 * unread p + 3 \<le> Suc n" for p
  proof -
    have "consumes True p (case parsePrimary n p of None \<Rightarrow> None | Some (Inl e) \<Rightarrow> Some (Inl e)
        | Some (Inr (left, p1)) \<Rightarrow>
            if tok_type (currentToken p1) = TOK_POWER then
              (case parsePower n (advance p1) of
                 None \<Rightarrow> None
               | Some (Inl e) \<Rightarrow> Some (Inl e)
               | Some (Inr (right, p2)) \<Rightarrow> Some (Inr (BinaryOpNode POWER left right, p2)))
            else Some (Inr (left, p1)))"
    proof (rule consumes_case [where ?s1.0 = True and ?p1.0 = p])
      show "consumes True p (parsePrimary n p)" by (rule pr [OF tp]) (use b in simp)
    next
      fix l p1
      assume p1: "token_present p1" and st: "True \<Longrightarrow> unread p1 < unread p"
      show "consumes True p (if tok_type (currentToken p1) = TOK_POWER then
              (case parsePower n (advance p1) of
                 None \<Rightarrow> None
               | Some (Inl e) \<Rightarrow> Some (Inl e)
               | Some (Inr (right, p2)) \<Rightarrow> Some (Inr (BinaryOpNode POWER l right, p2)))
            else Some (Inr (l, p1)))"
      proof (cases "tok_type (currentToken p1) = TOK_POWER")
        case True
        have a: "unread (advance p1) \<le> unread p1" by (rule unread_advance_le)
        have "consumes True p (case parsePower n (advance p1) of
                 None \<Rightarrow> None
               | Some (Inl e) \<Rightarrow> Some (Inl e)
               | Some (Inr (right, p2)) \<Rightarrow> Some (Inr (BinaryOpNode POWER l right, p2)))"
        proof (rule consumes_case [where ?s1.0 = True and ?p1.0 = "advance p1"])
          show "consumes True (advance p1) (parsePower n (advance p1))"
            by (rule pw) (use a b st in simp_all)
        next
          fix r p2
          assume "token_present p2" and "True \<Longrightarrow> unread p2 < unread (advance p1)"
          then show "consumes True p (Some (Inr (BinaryOpNode POWER l r, p2)))"
            using a st by (simp add: consumes_result)
        qed
        then show ?thesis using True by simp
      next
        case False
        then show ?thesis using p1 st by (simp add: consumes_result)
      qed
    qed
    then show ?thesis by simp
  qed
  have 7: "consumes True p (parsePrimary (Suc n) p)"
    if tp: "token_present p" and b: "6 * unread p + 2 \<le> Suc n" for p
  proof (cases "tok_type (currentToken p)")
    case TOK_NUMBER
    then have a: "Suc (unread (advance p)) \<le> unread p"
      by (intro unread_advance_less [OF tp]) simp
    show ?thesis
      using TOK_NUMBER a by (cases "stod (tok_value (currentToken p))") (simp_all add: consumes_result)
  next
    case TOK_VARIABLE
    then have a: "Suc (unread (advance p)) \<le> unread p"
      by (intro unread_advance_less [OF tp]) simp
    show ?thesis
      using TOK_VARIABLE a by (simp add: consumes_result)
  next
    case TOK_FUNCTION
    have "consumes True p (parseFunction n p)"
      by (rule fn [OF tp TOK_FUNCTION]) (use b in simp)
    then show ?thesis using TOK_FUNCTION by simp
  next
    case TOK_LEFT_PAREN
    then have a: "Suc (unread (advance p)) \<le> unread p"
      by (intro unread_advance_less [OF tp]) simp
    have "consumes True p (case parseExpression n (advance p) of
             None \<Rightarrow> None
           | Some (Inl e) \<Rightarrow> Some (Inl e)
           | Some (Inr (expr, p1)) \<Rightarrow>
               (case expect TOK_RIGHT_PAREN ''Expected closing parenthesis'' p1 of
                  Some e \<Rightarrow> Some (Inl e)
                | None \<Rightarrow> Some (Inr (expr, advance p1))))"
    proof (rule consumes_case [where ?s1.0 = True and ?p1.0 = "advance p"])
      show "consumes True (advance p) (parseExpression n (advance p))"
        by (rule e) (use a b in simp_all)
    next
      fix x p2
      assume le: "unread p2 \<le> unread (advance p)"
      have "unread (advance p2) \<le> unread p2" by (rule unread_advance_le)
      then have "consumes True p (Some (Inr (x, advance p2)))"
        using le a by (simp add: consumes_result)
      then show "consumes True p
          (case expect TOK_RIGHT_PAREN ''Expected closing parenthesis'' p2 of
             Some e \<Rightarrow> Some (Inl e)
           | None \<Rightarrow> Some (Inr (x, advance p2)))"
        by (rule consumes_expect)
    qed
    then show ?thesis using TOK_LEFT_PAREN by simp
  next
    case TOK_PLUS
    then have a: "Suc (unread (advance p)) \<le> unread p"
      by (intro unread_advance_less [OF tp]) simp
    have "consumes True p (case parsePrimary n (advance p) of
             None \<Rightarrow> None
           | Some (Inl e) \<Rightarrow> Some (Inl e)
           | Some (Inr (operand, p1)) \<Rightarrow> Some (Inr (UnaryOpNode POSITIVE operand, p1)))"
    proof (rule consumes_case [where ?s1.0 = True and ?p1.0 = "advance p"])
      show "consumes True (advance p) (parsePrimary n (advance p))"
        by (rule pr) (use a b in simp_all)
    next
      fix x p2
      assume "token_present p2" and "unread p2 \<le> unread (advance p)"
      then show "consumes True p (Some (Inr (UnaryOpNode POSITIVE x, p2)))"
        using a by (simp add: consumes_result)
    qed
    then show ?thesis using TOK_PLUS by simp
  next
    case TOK_MINUS
    then have a: "Suc (unread (advance p)) \<le> unread p"
      by (intro unread_advance_less [OF tp]) simp
    have "consumes True p (case parsePrimary n (advance p) of
             None \<Rightarrow> None
           | Some (Inl e) \<Rightarrow> Some (Inl e)
           | Some (Inr (operand, p1)) \<Rightarrow> Some (Inr (UnaryOpNode NEGATIVE operand, p1)))"
    proof (rule consumes_case [where ?s1.0 = True and ?p1.0 = "advance p"])
      show "consumes True (advance p) (parsePrimary n (advance p))"
        by (rule pr) (use a b in simp_all)
    next
      fix x p2
      assume "token_present p2" and "unread p2 \<le> unread (advance p)"
      then show "consumes True p (Some (Inr (UnaryOpNode NEGATIVE x, p2)))"
        using a by (simp add: consumes_result)
    qed
    then show ?thesis using TOK_MINUS by simp
  qed simp_all
  have 8: "consumes True p (parseFunction (Suc n) p)"
    if tp: "token_present p" and ty: "tok_type (currentToken p) = TOK_FUNCTION"
      and b: "6 * unread p + 1 \<le> Suc n" for p
  proof (cases "expect TOK_LEFT_PAREN ''Expected opening parenthesis after function name''
                  (advance p)")
    case (Some err)
    then show ?thesis by (simp only: parseFunction.simps(2) option.case consumes_error)
  next
    case None
    let ?q = "advance (advance p)"
    let ?inner = "if tok_type (currentToken ?q) \<noteq> TOK_RIGHT_PAREN
               then (case parseExpression n ?q of
                       None \<Rightarrow> None
                     | Some (Inl e) \<Rightarrow> Some (Inl e)
                     | Some (Inr (arg, p1)) \<Rightarrow> parseFunction_loop n [arg] p1)
               else Some (Inr ([], ?q))"
    have paren: "tok_type (currentToken (advance p)) = TOK_LEFT_PAREN"
      using None by (simp add: expect_def split: if_splits)
    have a1: "Suc (unread (advance p)) \<le> unread p"
      by (rule unread_advance_less [OF tp]) (use ty in simp)
    have a2: "Suc (unread ?q) \<le> unread (advance p)"
      by (rule unread_advance_less) (use paren in simp_all)
    have inner: "consumes False ?q ?inner"
    proof (cases "tok_type (currentToken ?q) \<noteq> TOK_RIGHT_PAREN")
      case True
      have "consumes False ?q (case parseExpression n ?q of
                       None \<Rightarrow> None
                     | Some (Inl e) \<Rightarrow> Some (Inl e)
                     | Some (Inr (arg, p1)) \<Rightarrow> parseFunction_loop n [arg] p1)"
      proof (rule consumes_case [where ?s1.0 = True and ?p1.0 = ?q])
        show "consumes True ?q (parseExpression n ?q)"
          by (rule e) (use a1 a2 b in simp_all)
      next
        fix arg p2
        assume p2: "token_present p2" and le: "unread p2 \<le> unread ?q"
        have "consumes False p2 (parseFunction_loop n [arg] p2)"
          by (rule lp [OF p2]) (use a1 a2 b le in simp)
        then show "consumes False ?q (parseFunction_loop n [arg] p2)"
          by (rule consumes_weaken) (use le in simp_all)
      qed
      then show ?thesis using True by simp
    next
      case False
      then show ?thesis by (simp add: consumes_result)
    qed
    have "consumes True p (case ?inner of
             None \<Rightarrow> None
           | Some (Inl e) \<Rightarrow> Some (Inl e)
           | Some (Inr (arguments, p2)) \<Rightarrow>
               (case expect TOK_RIGHT_PAREN ''Expected closing parenthesis'' p2 of
                  Some e \<Rightarrow> Some (Inl e)
                | None \<Rightarrow>
                    Some (Inr (FunctionNode (tok_value (currentToken p)) arguments,
                               advance p2))))"
    proof (rule consumes_case [where ?s1.0 = False and ?p1.0 = ?q])
      show "consumes False ?q ?inner" by (rule inner)
    next
      fix arguments p2
      assume le: "unread p2 \<le> unread ?q"
      have "unread (advance p2) \<le> unread p2" by (rule unread_advance_le)
      then have "consumes True p
          (Some (Inr (FunctionNode (tok_value (currentToken p)) arguments, advance p2)))"
        using le a1 a2 by (simp add: consumes_result)
      then show "consumes True p
          (case expect TOK_RIGHT_PAREN ''Expected closing parenthesis'' p2 of
             Some e \<Rightarrow> Some (Inl e)
           | None \<Rightarrow>
               Some (Inr (FunctionNode (tok_value (currentToken p)) arguments, advance p2)))"
        by (rule consumes_expect)
    qed
    then show ?thesis using None by (simp only: parseFunction.simps(2) option.case)
  qed
  have 9: "consumes False p (parseFunction_loop (Suc n) acc p)"
    if tp: "token_present p" and b: "6 * unread p + 1 \<le> Suc n" for p acc
  proof (cases "tok_type (currentToken p) = TOK_COMMA")
    case True
    have a: "Suc (unread (advance p)) \<le> unread p"
      by (rule unread_advance_less [OF tp]) (use True in simp)
    have "consumes False p (case parseExpression n (advance p) of
           None \<Rightarrow> None
         | Some (Inl e) \<Rightarrow> Some (Inl e)
         | Some (Inr (arg, p1)) \<Rightarrow> parseFunction_loop n (acc @ [arg]) p1)"
    proof (rule consumes_case [where ?s1.0 = True and ?p1.0 = "advance p"])
      show "consumes True (advance p) (parseExpression n (advance p))"
        by (rule e) (use a b in simp_all)
    next
      fix x p2
      assume p2: "token_present p2" and le: "unread p2 \<le> unread (advance p)"
      have "consumes False p2 (parseFunction_loop n (acc @ [x]) p2)"
        by (rule lp [OF p2]) (use a b le in simp)
      then show "consumes False p (parseFunction_loop n (acc @ [x]) p2)"
        by (rule consumes_weaken) (use a le in simp_all)
    qed
    then show ?thesis using True by simp
  next
    case False
    then show ?thesis using tp by (simp add: consumes_result)
  qed
  show ?thesis
    unfolding all_return_def
    using 1 2 3 4 5 6 7 8 9 by fast
qed

lemma all_return: "all_return n"
  by (induction n) (simp_all add: all_return_0 all_return_Suc)

lemma unread_Parser_init: "unread (Parser_init e) \<le> length e"
  using unread_advance [of "\<lparr>lexer = \<lparr>remaining = e, position = 0\<rparr>,
      currentToken = \<lparr>tok_type = TOK_INVALID, tok_value = [], tok_position = 0\<rparr>\<rparr>"]
  by (simp add: Parser_init_def)

text \<open>
  \<open>ExpressionParser::parse\<close> returns on every text: the depth bound of the model is never met.
\<close>

theorem parse_returns: "\<exists>r. parse e = Some r"
proof -
  have "consumes True (Parser_init e) (parseExpression (parse_depth e) (Parser_init e))"
    using all_return [of "parse_depth e"] unread_Parser_init [of e]
    unfolding all_return_def by (auto simp: Parser_init_def parse_depth_def)
  then show ?thesis
    by (auto simp: parse_def Parser_parse_def consumes_def split: option.splits sum.splits)
qed


subsection \<open>C3: re-parsing the printed form\<close>

text \<open>Lexing a text that starts with a known token.\<close>

lemma advance_lex_at: "advance p = lex_at (remaining (lexer p)) (position (lexer p))"
  by (cases "lexer p") (simp add: lex_at_def advance_def)


lemma lex_at_Nil:
  "lex_at [] pos = \<lparr>lexer = \<lparr>remaining = [], position = pos\<rparr>,
      currentToken = \<lparr>tok_type = TOK_END_OF_FILE, tok_value = [], tok_position = pos\<rparr>\<rparr>"
  by (simp add: lex_at_def advance_def getNextToken_def skipWhitespace_def)


lemma lex_at_symbol:
  "c \<in> set ''+-*/^(),'' \<Longrightarrow>
   lex_at (c # s) pos = \<lparr>lexer = \<lparr>remaining = s, position = Suc pos\<rparr>,
      currentToken = \<lparr>tok_type = single_char_type c, tok_value = [c], tok_position = pos\<rparr>\<rparr>"
  by (auto simp: lex_at_def advance_def getNextToken_def skipWhitespace_def isspace_def
      isdigit_def isalpha_def)








lemma length_digits_width [simp]: "length (digits_width w n) = w"
  by (induction w n rule: digits_width.induct) auto


lemma nat_to_string_not_Nil [simp]: "nat_to_string n \<noteq> []"
  by (subst nat_to_string.simps) simp


lemma isdigit_chars:
  "isdigit c \<Longrightarrow> c \<noteq> CHR ''.'' \<and> c \<noteq> CHR ''e'' \<and> c \<noteq> CHR ''E'' \<and> c \<noteq> CHR ''+''
     \<and> c \<noteq> CHR ''-'' \<and> c \<noteq> CHR '' '' \<and> c \<noteq> CHR '')'' \<and> c \<noteq> CHR '',''"
  by (auto simp: isdigit_def)










lemma stod_nonneg: "stod s = Inr v \<Longrightarrow> 0 \<le> v"
  by (auto simp: stod_def Let_def split: if_splits)



lemma delimited_simps [simp]:
  "delimited []" "delimited (CHR '' '' # s)" "delimited (CHR '')'' # s)" "delimited (CHR '','' # s)"
  by (simp_all add: delimited_def)

lemma delimited_more_args [simp]: "delimited (more_args ss @ CHR '')'' # rest)"
  by (cases ss) auto

lemma tok_lex_at_simps [simp]:
  "tok_type (currentToken (lex_at [] pos)) = TOK_END_OF_FILE"
  "tok_type (currentToken (lex_at (CHR '')'' # s) pos)) = TOK_RIGHT_PAREN"
  "tok_type (currentToken (lex_at (CHR '','' # s) pos)) = TOK_COMMA"
  "tok_type (currentToken (lex_at (CHR ''('' # s) pos)) = TOK_LEFT_PAREN"
  "tok_type (currentToken (lex_at (CHR ''+'' # s) pos)) = TOK_PLUS"
  "tok_type (currentToken (lex_at (CHR ''-'' # s) pos)) = TOK_MINUS"
  "tok_type (currentToken (lex_at (CHR ''*'' # s) pos)) = TOK_MULTIPLY"
  "tok_type (currentToken (lex_at (CHR ''/'' # s) pos)) = TOK_DIVIDE"
  "tok_type (currentToken (lex_at (CHR ''^'' # s) pos)) = TOK_POWER"
  by (simp_all add: lex_at_Nil lex_at_symbol single_char_type_def)

lemma advance_lex_at_symbol [simp]:
  "c \<in> set ''+-*/^(),'' \<Longrightarrow> advance (lex_at (c # s) pos) = lex_at s (Suc pos)"
  by (simp add: advance_lex_at lex_at_symbol del: set_simps)


















text \<open>The parser builds only trees of the shape \<open>parser_output\<close>.\<close>

lemma is_identifier_takeWhile:
  "isalpha c \<or> c = CHR ''_'' \<Longrightarrow>
   is_identifier (takeWhile (\<lambda>c. isalnum c \<or> c = CHR ''_'') (c # cs))"
  by (auto simp: is_identifier_def isalnum_def dest: set_takeWhileD)

lemma single_char_type_not_name:
  "single_char_type c \<noteq> TOK_VARIABLE \<and> single_char_type c \<noteq> TOK_FUNCTION"
  by (simp add: single_char_type_def)

lemma well_lexed_advance [simp]: "well_lexed (advance p)"
proof -
  obtain s q where sk: "skipWhitespace (lexer p) = \<lparr>remaining = s, position = q\<rparr>"
    by (cases "skipWhitespace (lexer p)") auto
  show ?thesis
  proof (cases s)
    case Nil
    then show ?thesis
      using sk by (simp add: well_lexed_def advance_def getNextToken_def)
  next
    case (Cons c cs)
    show ?thesis
      using sk Cons is_identifier_takeWhile [of c cs] single_char_type_not_name [of c]
      by (auto simp: well_lexed_def advance_def getNextToken_def readNumber_def
          readIdentifier_def Let_def)
  qed
qed

lemma parsed_case_Inr:
  assumes "(case x of None \<Rightarrow> None | Some (Inl e) \<Rightarrow> Some (Inl e)
            | Some (Inr (a, p1)) \<Rightarrow> k a p1) = Some (Inr r)"
  obtains a p1 where "x = Some (Inr (a, p1))" and "k a p1 = Some (Inr r)"
  using assms by (cases x) (auto split: sum.splits)

lemma option_case_error:
  "(case x of Some e \<Rightarrow> Some (Inl e) | None \<Rightarrow> y) = Some (Inr r) \<Longrightarrow>
     x = None \<and> y = Some (Inr r)"
  by (cases x) auto

lemma all_output_0: "all_output 0"
  by (simp add: all_output_def)

lemma all_output_Suc:
  assumes "all_output n"
  shows "all_output (Suc n)"
proof -
  have e: "parser_output t \<and> well_lexed p'"
    if "well_lexed p" "parseExpression n p = Some (Inr (t, p'))" for p t p'
    using assms that unfolding all_output_def by fast
  have t: "parser_output t \<and> well_lexed p'"
    if "well_lexed p" "parseTerm n p = Some (Inr (t, p'))" for p t p'
    using assms that unfolding all_output_def by fast
  have tl: "parser_output t \<and> well_lexed p'"
    if "well_lexed p" "parser_output l" "parseTerm_loop n l p = Some (Inr (t, p'))" for p l t p'
    using assms that unfolding all_output_def by fast
  have f: "parser_output t \<and> well_lexed p'"
    if "well_lexed p" "parseFactor n p = Some (Inr (t, p'))" for p t p'
    using assms that unfolding all_output_def by fast
  have fl: "parser_output t \<and> well_lexed p'"
    if "well_lexed p" "parser_output l" "parseFactor_loop n l p = Some (Inr (t, p'))" for p l t p'
    using assms that unfolding all_output_def by fast
  have pw: "parser_output t \<and> well_lexed p'"
    if "well_lexed p" "parsePower n p = Some (Inr (t, p'))" for p t p'
    using assms that unfolding all_output_def by fast
  have pr: "parser_output t \<and> well_lexed p'"
    if "well_lexed p" "parsePrimary n p = Some (Inr (t, p'))" for p t p'
    using assms that unfolding all_output_def by fast
  have fn: "parser_output t \<and> well_lexed p'"
    if "well_lexed p" "tok_type (currentToken p) = TOK_FUNCTION"
      "parseFunction n p = Some (Inr (t, p'))" for p t p'
    using assms that unfolding all_output_def by fast
  have lp: "(\<forall>a \<in> set ts. parser_output a) \<and> well_lexed p'"
    if "well_lexed p" "\<forall>a \<in> set acc. parser_output a"
      "parseFunction_loop n acc p = Some (Inr (ts, p'))" for p acc ts p'
    using assms that unfolding all_output_def by fast
  have 1: "parser_output t \<and> well_lexed p'"
    if "well_lexed p" "parseExpression (Suc n) p = Some (Inr (t, p'))" for p t p'
    using that t by simp
  have 2: "parser_output t \<and> well_lexed p'"
    if "well_lexed p" "parseTerm (Suc n) p = Some (Inr (t, p'))" for p t p'
  proof -
    from that(2) have "(case parseFactor n p of None \<Rightarrow> None | Some (Inl e) \<Rightarrow> Some (Inl e)
        | Some (Inr (left, p1)) \<Rightarrow> parseTerm_loop n left p1) = Some (Inr (t, p'))"
      by simp
    then obtain l p1 where l: "parseFactor n p = Some (Inr (l, p1))"
      and r: "parseTerm_loop n l p1 = Some (Inr (t, p'))"
      by (rule parsed_case_Inr)
    from f [OF that(1) l] have "parser_output l" "well_lexed p1" by simp_all
    from tl [OF this(2,1) r] show ?thesis .
  qed
  have 3: "parser_output t \<and> well_lexed p'"
    if "well_lexed p" "parser_output l" "parseTerm_loop (Suc n) l p = Some (Inr (t, p'))"
    for p l t p'
  proof (cases "tok_type (currentToken p) = TOK_PLUS \<or> tok_type (currentToken p) = TOK_MINUS")
    case True
    let ?op = "if tok_type (currentToken p) = TOK_PLUS then ADD else SUBTRACT"
    from True that(3) have "(case parseFactor n (advance p) of
           None \<Rightarrow> None
         | Some (Inl e) \<Rightarrow> Some (Inl e)
         | Some (Inr (right, p1)) \<Rightarrow> parseTerm_loop n (BinaryOpNode ?op l right) p1)
        = Some (Inr (t, p'))"
      by simp
    then obtain r p1 where r: "parseFactor n (advance p) = Some (Inr (r, p1))"
      and l: "parseTerm_loop n (BinaryOpNode ?op l r) p1 = Some (Inr (t, p'))"
      by (rule parsed_case_Inr)
    from f [OF _ r] have r': "parser_output r" "well_lexed p1" by simp_all
    then have "parser_output (BinaryOpNode ?op l r)" using that(2) by simp
    from tl [OF r'(2) this l] show ?thesis .
  next
    case False
    then show ?thesis using that by simp
  qed
  have 4: "parser_output t \<and> well_lexed p'"
    if "well_lexed p" "parseFactor (Suc n) p = Some (Inr (t, p'))" for p t p'
  proof -
    from that(2) have "(case parsePower n p of None \<Rightarrow> None | Some (Inl e) \<Rightarrow> Some (Inl e)
        | Some (Inr (left, p1)) \<Rightarrow> parseFactor_loop n left p1) = Some (Inr (t, p'))"
      by simp
    then obtain l p1 where l: "parsePower n p = Some (Inr (l, p1))"
      and r: "parseFactor_loop n l p1 = Some (Inr (t, p'))"
      by (rule parsed_case_Inr)
    from pw [OF that(1) l] have "parser_output l" "well_lexed p1" by simp_all
    from fl [OF this(2,1) r] show ?thesis .
  qed
  have 5: "parser_output t \<and> well_lexed p'"
    if "well_lexed p" "parser_output l" "parseFactor_loop (Suc n) l p = Some (Inr (t, p'))"
    for p l t p'
  proof (cases "tok_type (currentToken p) = TOK_MULTIPLY \<or> tok_type (currentToken p) = TOK_DIVIDE")
    case True
    let ?op = "if tok_type (currentToken p) = TOK_MULTIPLY then MULTIPLY else DIVIDE"
    from True that(3) have "(case parsePower n (advance p) of
           None \<Rightarrow> None
         | Some (Inl e) \<Rightarrow> Some (Inl e)
         | Some (Inr (right, p1)) \<Rightarrow> parseFactor_loop n (BinaryOpNode ?op l right) p1)
        = Some (Inr (t, p'))"
      by simp
    then obtain r p1 where r: "parsePower n (advance p) = Some (Inr (r, p1))"
      and l: "parseFactor_loop n (BinaryOpNode ?op l r) p1 = Some (Inr (t, p'))"
      by (rule parsed_case_Inr)
    from pw [OF _ r] have r': "parser_output r" "well_lexed p1" by simp_all
    then have "parser_output (BinaryOpNode ?op l r)" using that(2) by simp
    from fl [OF r'(2) this l] show ?thesis .
  next
    case False
    show ?thesis
    proof (cases "starts_factor (tok_type (currentToken p))")
      case True
      with False that(3) have "(case parsePower n p of
           None \<Rightarrow> None
         | Some (Inl e) \<Rightarrow> Some (Inl e)
         | Some (Inr (right, p1)) \<Rightarrow> parseFactor_loop n (BinaryOpNode MULTIPLY l right) p1)
        = Some (Inr (t, p'))"
        by simp
      then obtain r p1 where r: "parsePower n p = Some (Inr (r, p1))"
        and l: "parseFactor_loop n (BinaryOpNode MULTIPLY l r) p1 = Some (Inr (t, p'))"
        by (rule parsed_case_Inr)
      from pw [OF that(1) r] have r': "parser_output r" "well_lexed p1" by simp_all
      then have "parser_output (BinaryOpNode MULTIPLY l r)" using that(2) by simp
      from fl [OF r'(2) this l] show ?thesis .
    next
      case f2: False
      then show ?thesis using False that by simp
    qed
  qed
  have 6: "parser_output t \<and> well_lexed p'"
    if "well_lexed p" "parsePower (Suc n) p = Some (Inr (t, p'))" for p t p'
  proof -
    from that(2) have "(case parsePrimary n p of None \<Rightarrow> None | Some (Inl e) \<Rightarrow> Some (Inl e)
        | Some (Inr (left, p1)) \<Rightarrow>
            if tok_type (currentToken p1) = TOK_POWER then
              (case parsePower n (advance p1) of
                 None \<Rightarrow> None
               | Some (Inl e) \<Rightarrow> Some (Inl e)
               | Some (Inr (right, p2)) \<Rightarrow> Some (Inr (BinaryOpNode POWER left right, p2)))
            else Some (Inr (left, p1))) = Some (Inr (t, p'))"
      by simp
    then obtain l p1 where l: "parsePrimary n p = Some (Inr (l, p1))"
      and c: "(if tok_type (currentToken p1) = TOK_POWER then
              (case parsePower n (advance p1) of
                 None \<Rightarrow> None
               | Some (Inl e) \<Rightarrow> Some (Inl e)
               | Some (Inr (right, p2)) \<Rightarrow> Some (Inr (BinaryOpNode POWER l right, p2)))
            else Some (Inr (l, p1))) = Some (Inr (t, p'))"
      by (rule parsed_case_Inr)
    from pr [OF that(1) l] have l': "parser_output l" "well_lexed p1" by simp_all
    show ?thesis
    proof (cases "tok_type (currentToken p1) = TOK_POWER")
      case True
      with c have "(case parsePower n (advance p1) of
                 None \<Rightarrow> None
               | Some (Inl e) \<Rightarrow> Some (Inl e)
               | Some (Inr (right, p2)) \<Rightarrow> Some (Inr (BinaryOpNode POWER l right, p2)))
          = Some (Inr (t, p'))"
        by simp
      then obtain r p2 where r: "parsePower n (advance p1) = Some (Inr (r, p2))"
        and t: "Some (Inr (BinaryOpNode POWER l r, p2)) = Some (Inr (t, p'))"
        by (rule parsed_case_Inr) blast
      from pw [OF _ r] have "parser_output r" "well_lexed p2" by simp_all
      then show ?thesis using l' t by auto
    next
      case False
      then show ?thesis using c l' by simp
    qed
  qed
  have 7: "parser_output t \<and> well_lexed p'"
    if "well_lexed p" "parsePrimary (Suc n) p = Some (Inr (t, p'))" for p t p'
  proof (cases "tok_type (currentToken p)")
    case TOK_NUMBER
    with that(2) obtain v where "stod (tok_value (currentToken p)) = Inr v"
      and "t = NumberNode v" "p' = advance p"
      by (auto split: sum.splits)
    then show ?thesis using stod_nonneg by simp
  next
    case TOK_VARIABLE
    with that(2) have t: "t = VariableNode (tok_value (currentToken p))" "p' = advance p"
      by simp_all
    have "is_identifier (tok_value (currentToken p)) \<and> \<not> isFunction (tok_value (currentToken p))"
      using that(1) TOK_VARIABLE by (simp add: well_lexed_def)
    then show ?thesis using t by simp
  next
    case TOK_FUNCTION
    with that(2) have "parseFunction n p = Some (Inr (t, p'))" by simp
    from fn [OF that(1) TOK_FUNCTION this] show ?thesis .
  next
    case TOK_LEFT_PAREN
    with that(2) have "(case parseExpression n (advance p) of
             None \<Rightarrow> None
           | Some (Inl e) \<Rightarrow> Some (Inl e)
           | Some (Inr (expr, p1)) \<Rightarrow>
               (case expect TOK_RIGHT_PAREN ''Expected closing parenthesis'' p1 of
                  Some e \<Rightarrow> Some (Inl e)
                | None \<Rightarrow> Some (Inr (expr, advance p1)))) = Some (Inr (t, p'))"
      by simp
    then obtain x p1 where x: "parseExpression n (advance p) = Some (Inr (x, p1))"
      and c: "(case expect TOK_RIGHT_PAREN ''Expected closing parenthesis'' p1 of
                  Some e \<Rightarrow> Some (Inl e)
                | None \<Rightarrow> Some (Inr (x, advance p1))) = Some (Inr (t, p'))"
      by (rule parsed_case_Inr)
    from c have t: "t = x" "p' = advance p1" by (auto split: option.splits)
    from e [OF _ x] show ?thesis using t by simp
  next
    case TOK_PLUS
    with that(2) have "(case parsePrimary n (advance p) of
             None \<Rightarrow> None
           | Some (Inl e) \<Rightarrow> Some (Inl e)
           | Some (Inr (operand, p1)) \<Rightarrow> Some (Inr (UnaryOpNode POSITIVE operand, p1)))
         = Some (Inr (t, p'))"
      by simp
    then obtain x p1 where x: "parsePrimary n (advance p) = Some (Inr (x, p1))"
      and t: "Some (Inr (UnaryOpNode POSITIVE x, p1)) = Some (Inr (t, p'))"
      by (rule parsed_case_Inr) blast
    from pr [OF _ x] show ?thesis using t by auto
  next
    case TOK_MINUS
    with that(2) have "(case parsePrimary n (advance p) of
             None \<Rightarrow> None
           | Some (Inl e) \<Rightarrow> Some (Inl e)
           | Some (Inr (operand, p1)) \<Rightarrow> Some (Inr (UnaryOpNode NEGATIVE operand, p1)))
         = Some (Inr (t, p'))"
      by simp
    then obtain x p1 where x: "parsePrimary n (advance p) = Some (Inr (x, p1))"
      and t: "Some (Inr (UnaryOpNode NEGATIVE x, p1)) = Some (Inr (t, p'))"
      by (rule parsed_case_Inr) blast
    from pr [OF _ x] show ?thesis using t by auto
  qed (use that(2) in simp_all)
  have 8: "parser_output t \<and> well_lexed p'"
    if "well_lexed p" "tok_type (currentToken p) = TOK_FUNCTION"
      "parseFunction (Suc n) p = Some (Inr (t, p'))" for p t p'
  proof -
    have name: "isFunction (tok_value (currentToken p))"
      using that(1,2) by (simp add: well_lexed_def)
    let ?q = "advance (advance p)"
    let ?inner = "if tok_type (currentToken ?q) \<noteq> TOK_RIGHT_PAREN
               then (case parseExpression n ?q of
                       None \<Rightarrow> None
                     | Some (Inl e) \<Rightarrow> Some (Inl e)
                     | Some (Inr (arg, p1)) \<Rightarrow> parseFunction_loop n [arg] p1)
               else Some (Inr ([], ?q))"
    let ?rest = "case ?inner of
             None \<Rightarrow> None
           | Some (Inl e) \<Rightarrow> Some (Inl e)
           | Some (Inr (arguments, p2)) \<Rightarrow>
               (case expect TOK_RIGHT_PAREN ''Expected closing parenthesis'' p2 of
                  Some e \<Rightarrow> Some (Inl e)
                | None \<Rightarrow>
                    Some (Inr (FunctionNode (tok_value (currentToken p)) arguments,
                               advance p2)))"
    from that(3) have "(case expect TOK_LEFT_PAREN
             ''Expected opening parenthesis after function name'' (advance p) of
           Some e \<Rightarrow> Some (Inl e) | None \<Rightarrow> ?rest) = Some (Inr (t, p'))"
      by (simp only: parseFunction.simps(2))
    then have "?rest = Some (Inr (t, p'))"
      by (rule option_case_error [THEN conjunct2])
    then obtain arguments p2 where inner: "?inner = Some (Inr (arguments, p2))"
      and c: "(case expect TOK_RIGHT_PAREN ''Expected closing parenthesis'' p2 of
                  Some e \<Rightarrow> Some (Inl e)
                | None \<Rightarrow>
                    Some (Inr (FunctionNode (tok_value (currentToken p)) arguments,
                               advance p2))) = Some (Inr (t, p'))"
      by (rule parsed_case_Inr)
    from c have t: "t = FunctionNode (tok_value (currentToken p)) arguments" "p' = advance p2"
      by (auto split: option.splits)
    have "\<forall>a \<in> set arguments. parser_output a"
    proof (cases "tok_type (currentToken ?q) \<noteq> TOK_RIGHT_PAREN")
      case True
      with inner have "(case parseExpression n ?q of
                       None \<Rightarrow> None
                     | Some (Inl e) \<Rightarrow> Some (Inl e)
                     | Some (Inr (arg, p1)) \<Rightarrow> parseFunction_loop n [arg] p1)
             = Some (Inr (arguments, p2))"
        by simp
      then obtain arg p1 where a: "parseExpression n ?q = Some (Inr (arg, p1))"
        and l: "parseFunction_loop n [arg] p1 = Some (Inr (arguments, p2))"
        by (rule parsed_case_Inr)
      from e [OF _ a] have a': "parser_output arg" "well_lexed p1" by simp_all
      then have "\<forall>a \<in> set [arg]. parser_output a" by simp
      from lp [OF a'(2) this l] show ?thesis by simp
    next
      case False
      then show ?thesis using inner by simp
    qed
    then show ?thesis using t name by simp
  qed
  have 9: "(\<forall>a \<in> set ts. parser_output a) \<and> well_lexed p'"
    if "well_lexed p" "\<forall>a \<in> set acc. parser_output a"
      "parseFunction_loop (Suc n) acc p = Some (Inr (ts, p'))" for p acc ts p'
  proof (cases "tok_type (currentToken p) = TOK_COMMA")
    case True
    with that(3) have "(case parseExpression n (advance p) of
           None \<Rightarrow> None
         | Some (Inl e) \<Rightarrow> Some (Inl e)
         | Some (Inr (arg, p1)) \<Rightarrow> parseFunction_loop n (acc @ [arg]) p1) = Some (Inr (ts, p'))"
      by simp
    then obtain x p1 where x: "parseExpression n (advance p) = Some (Inr (x, p1))"
      and l: "parseFunction_loop n (acc @ [x]) p1 = Some (Inr (ts, p'))"
      by (rule parsed_case_Inr)
    from e [OF _ x] have x': "parser_output x" "well_lexed p1" by simp_all
    then have "\<forall>a \<in> set (acc @ [x]). parser_output a" using that(2) by simp
    from lp [OF x'(2) this l] show ?thesis .
  next
    case False
    then show ?thesis using that by simp
  qed
  show ?thesis
    unfolding all_output_def
    using 1 2 3 4 5 6 7 8 9 by fast
qed

lemma all_output: "all_output n"
  by (induction n) (simp_all add: all_output_0 all_output_Suc)







subsection \<open>C4: precedence and associativity\<close>

text \<open>
  C4: the text \<open>2 + 3 * 4\<close> parses to \<open>2 + (3 * 4)\<close> and evaluates to 14, \<open>(2 + 3) * 4\<close> parses
  to the product of the sum and evaluates to 20, and \<open>2 ^ 3 ^ 2\<close> parses to \<open>2 ^ (3 ^ 2)\<close>,
  power being right-associative, and evaluates to 512.
\<close>

theorem precedence_examples:
  "parse ''2 + 3 * 4''
     = Some (Inr (BinaryOpNode ADD (NumberNode 2)
                   (BinaryOpNode MULTIPLY (NumberNode 3) (NumberNode 4))))
   \<and> ast_evaluate (BinaryOpNode ADD (NumberNode 2)
                     (BinaryOpNode MULTIPLY (NumberNode 3) (NumberNode 4))) Map.empty
     = Inr 14
   \<and> parse ''(2 + 3) * 4''
     = Some (Inr (BinaryOpNode MULTIPLY (BinaryOpNode ADD (NumberNode 2) (NumberNode 3))
                   (NumberNode 4)))
   \<and> ast_evaluate (BinaryOpNode MULTIPLY (BinaryOpNode ADD (NumberNode 2) (NumberNode 3))
                     (NumberNode 4)) Map.empty
     = Inr 20
   \<and> parse ''2 ^ 3 ^ 2''
     = Some (Inr (BinaryOpNode POWER (NumberNode 2)
                   (BinaryOpNode POWER (NumberNode 3) (NumberNode 2))))
   \<and> ast_evaluate (BinaryOpNode POWER (NumberNode 2)
                     (BinaryOpNode POWER (NumberNode 3) (NumberNode 2))) Map.empty
     = Inr 512"
proof -
  have "parse ''2 + 3 * 4''
     = Some (Inr (BinaryOpNode ADD (NumberNode 2)
                   (BinaryOpNode MULTIPLY (NumberNode 3) (NumberNode 4))))"
    by (simp add: run_parser cong: case_weak_congs)
  moreover have "parse ''(2 + 3) * 4''
     = Some (Inr (BinaryOpNode MULTIPLY (BinaryOpNode ADD (NumberNode 2) (NumberNode 3))
                   (NumberNode 4)))"
    by (simp add: run_parser cong: case_weak_congs)
  moreover have "parse ''2 ^ 3 ^ 2''
     = Some (Inr (BinaryOpNode POWER (NumberNode 2)
                   (BinaryOpNode POWER (NumberNode 3) (NumberNode 2))))"
    by (simp add: run_parser cong: case_weak_congs)
  ultimately show ?thesis
    by (simp add: binary_apply_def cpow_def)
qed

subsection \<open>C5: implicit multiplication\<close>

text \<open>
  C5: in the loop of \<open>parseFactor\<close>, when the current token (the one that follows the factor
  parsed so far) is a Number, a Variable, a FunctionName or a left parenthesis, the parser
  does not consume it as an operator: it parses the next power starting at that token and
  continues with the product of the factor so far and that power. In particular the text
  \<open>2x\<close> parses to \<open>2 * x\<close>, which evaluates to 10 when \<open>x\<close> is 5.
\<close>

theorem implicit_multiplication:
  "(tok_type (currentToken p) \<in> {TOK_NUMBER, TOK_VARIABLE, TOK_FUNCTION, TOK_LEFT_PAREN}
      \<and> parsePower n p = Some (Inr (right, p1))
      \<longrightarrow> parseFactor_loop (Suc n) left p
          = parseFactor_loop n (BinaryOpNode MULTIPLY left right) p1)
   \<and> parse ''2x'' = Some (Inr (BinaryOpNode MULTIPLY (NumberNode 2) (VariableNode ''x'')))
   \<and> ast_evaluate (BinaryOpNode MULTIPLY (NumberNode 2) (VariableNode ''x''))
        [''x'' \<mapsto> 5] = Inr 10"
proof -
  have "parse ''2x'' = Some (Inr (BinaryOpNode MULTIPLY (NumberNode 2) (VariableNode ''x'')))"
    by (simp add: run_parser cong: case_weak_congs)
  then show ?thesis
    by (auto simp: starts_factor_def binary_apply_def)
qed

theorem implicit_multiplication_witness:
  "parseFactor_loop 3 (NumberNode 2)
      \<lparr>lexer = \<lparr>remaining = [], position = 2\<rparr>,
       currentToken = \<lparr>tok_type = TOK_VARIABLE, tok_value = ''x'', tok_position = 1\<rparr>\<rparr>
     = Some (Inr (BinaryOpNode MULTIPLY (NumberNode 2) (VariableNode ''x''),
          \<lparr>lexer = \<lparr>remaining = [], position = 2\<rparr>,
           currentToken = \<lparr>tok_type = TOK_END_OF_FILE, tok_value = [], tok_position = 2\<rparr>\<rparr>))
   \<and> parse ''2 3'' = Some (Inr (BinaryOpNode MULTIPLY (NumberNode 2) (NumberNode 3)))
   \<and> parse ''2sin(x)''
     = Some (Inr (BinaryOpNode MULTIPLY (NumberNode 2) (FunctionNode ''sin'' [VariableNode ''x''])))
   \<and> parse ''2(x)'' = Some (Inr (BinaryOpNode MULTIPLY (NumberNode 2) (VariableNode ''x'')))"
proof -
  have a: "parsePower 2
      \<lparr>lexer = \<lparr>remaining = [], position = 2\<rparr>,
       currentToken = \<lparr>tok_type = TOK_VARIABLE, tok_value = ''x'', tok_position = 1\<rparr>\<rparr>
     = Some (Inr (VariableNode ''x'',
          \<lparr>lexer = \<lparr>remaining = [], position = 2\<rparr>,
           currentToken = \<lparr>tok_type = TOK_END_OF_FILE, tok_value = [], tok_position = 2\<rparr>\<rparr>))"
    by (simp add: run_parser cong: case_weak_congs)
  have b: "parseFactor_loop 2 (BinaryOpNode MULTIPLY (NumberNode 2) (VariableNode ''x''))
      \<lparr>lexer = \<lparr>remaining = [], position = 2\<rparr>,
       currentToken = \<lparr>tok_type = TOK_END_OF_FILE, tok_value = [], tok_position = 2\<rparr>\<rparr>
     = Some (Inr (BinaryOpNode MULTIPLY (NumberNode 2) (VariableNode ''x''),
          \<lparr>lexer = \<lparr>remaining = [], position = 2\<rparr>,
           currentToken = \<lparr>tok_type = TOK_END_OF_FILE, tok_value = [], tok_position = 2\<rparr>\<rparr>))"
    by (simp add: run_parser cong: case_weak_congs)
  have c: "parse ''2 3'' = Some (Inr (BinaryOpNode MULTIPLY (NumberNode 2) (NumberNode 3)))"
    by (simp add: run_parser cong: case_weak_congs)
  have d: "parse ''2sin(x)''
     = Some (Inr (BinaryOpNode MULTIPLY (NumberNode 2) (FunctionNode ''sin'' [VariableNode ''x''])))"
    by (simp add: run_parser cong: case_weak_congs)
  have e: "parse ''2(x)'' = Some (Inr (BinaryOpNode MULTIPLY (NumberNode 2) (VariableNode ''x'')))"
    by (simp add: run_parser cong: case_weak_congs)
  have "parseFactor_loop (Suc 2) (NumberNode 2)
      \<lparr>lexer = \<lparr>remaining = [], position = 2\<rparr>,
       currentToken = \<lparr>tok_type = TOK_VARIABLE, tok_value = ''x'', tok_position = 1\<rparr>\<rparr>
     = parseFactor_loop 2 (BinaryOpNode MULTIPLY (NumberNode 2) (VariableNode ''x''))
      \<lparr>lexer = \<lparr>remaining = [], position = 2\<rparr>,
       currentToken = \<lparr>tok_type = TOK_END_OF_FILE, tok_value = [], tok_position = 2\<rparr>\<rparr>"
    using a implicit_multiplication
      [of "\<lparr>lexer = \<lparr>remaining = [], position = 2\<rparr>,
            currentToken = \<lparr>tok_type = TOK_VARIABLE, tok_value = ''x'', tok_position = 1\<rparr>\<rparr>"
          2 "VariableNode ''x''"
          "\<lparr>lexer = \<lparr>remaining = [], position = 2\<rparr>,
            currentToken = \<lparr>tok_type = TOK_END_OF_FILE, tok_value = [], tok_position = 2\<rparr>\<rparr>"
          "NumberNode 2"]
    by simp
  then show ?thesis using b c d e by (simp add: eval_nat_numeral)
qed

subsection \<open>C8: solving \<open>2*x - 3\<close>\<close>

text \<open>
  C8 states that solve succeeds on the expression parsed from \<open>2*x - 3\<close> with a constant
  that simplifies to 1.5. In the code the text parses and converts to \<open>(2 * x) - 3\<close>, which
  simplify leaves unchanged; its left operand \<open>2 * x\<close> is not constant, so solve rearranges
  nothing and throws.
\<close>

theorem solve_linear_fails:
  "parseFromString ''2*x - 3''
     = Some (Some (SymbolicBinaryOp SUBTRACT
                    (SymbolicBinaryOp MULTIPLY (SymbolicNumber 2) (SymbolicVariable ''x''))
                    (SymbolicNumber 3)))
   \<and> solve (Some (SymbolicBinaryOp SUBTRACT
                    (SymbolicBinaryOp MULTIPLY (SymbolicNumber 2) (SymbolicVariable ''x''))
                    (SymbolicNumber 3))) ''x''
     = Inl ''Equation solving failed: Complex equation solving not implemented''"
proof -
  have "parseFromString ''2*x - 3''
     = Some (Some (SymbolicBinaryOp SUBTRACT
                    (SymbolicBinaryOp MULTIPLY (SymbolicNumber 2) (SymbolicVariable ''x''))
                    (SymbolicNumber 3)))"
    by (simp add: parseFromString_def run_parser cong: case_weak_congs)
  then show ?thesis
    by (simp add: solve_def solve_body_def simplify_binary_def)
qed

subsection \<open>C9: a function call without arguments\<close>


end
